theory Spec2Isabelle
  imports Complex_Main "HOL-Library.AList"
begin

section \<open>The Cyberiada state machine model (cyberiadasm\_model.cpp)\<close>

text \<open>
  A shallow embedding of \<^verbatim>\<open>CyberiadaSMModel\<close>. Items live on the C++ heap and are
  referred to by pointers; the model keeps them in an explicit store (a list of item
  records, a pointer being a position in it, \<open>None\<close> being \<^verbatim>\<open>NULL\<close>). Every member
  function takes the model object and returns the updated one. An assertion that fires
  and the dereference of a pointer that was never allocated are error values; a loop
  that may run forever returns \<open>None\<close> for "does not return".
\<close>

subsection \<open>QString\<close>

text \<open>
  \<^verbatim>\<open>QString::trimmed\<close>: white space removed from both ends. A character here is one
  of the 256 code points below U+0100; of those \<^verbatim>\<open>QChar::isSpace\<close> holds for the
  characters 9 to 13, the space, U+0085 and U+00A0. (The separators it also accepts beyond
  U+00FF have no character here.)
\<close>

definition isSpace :: "char \<Rightarrow> bool" where
  "isSpace c =
     (c \<in> set [CHR 0x09, CHR 0x0A, CHR 0x0B, CHR 0x0C, CHR 0x0D, CHR '' '', CHR 0x85, CHR 0xA0])"

definition trimmed :: "string \<Rightarrow> string" where
  "trimmed s = rev (dropWhile isSpace (rev (dropWhile isSpace s)))"

text \<open>
  \<^verbatim>\<open>QString::arg(int)\<close> replaces every occurrence of the lowest numbered place marker
  (\<^verbatim>\<open>%1\<close> ... \<^verbatim>\<open>%99\<close>, optionally \<^verbatim>\<open>%L1\<close>) by the decimal text of the number. A string
  without a place marker is returned as it is (Qt prints a warning).
\<close>

definition isDigit :: "char \<Rightarrow> bool" where
  "isDigit c = (48 \<le> (of_char c :: nat) \<and> (of_char c :: nat) \<le> 57)"

definition digitValue :: "char \<Rightarrow> nat" where
  "digitValue c = of_char c - 48"

text \<open>The place marker a string starts with, if any: its number and its length.\<close>

fun digits_at :: "string \<Rightarrow> (nat \<times> nat) option" where
  "digits_at (a # b # cs) =
     (if isDigit a then
        (if isDigit b then Some (10 * digitValue a + digitValue b, 2)
         else Some (digitValue a, 1))
      else None)"
| "digits_at [a] = (if isDigit a then Some (digitValue a, 1) else None)"
| "digits_at [] = None"

fun marker_at :: "string \<Rightarrow> (nat \<times> nat) option" where
  "marker_at (p # l # cs) =
     (if p = CHR ''%'' then
        (if l = CHR ''L'' then map_option (\<lambda>(n, len). (n, len + 2)) (digits_at cs)
         else map_option (\<lambda>(n, len). (n, len + 1)) (digits_at (l # cs)))
      else None)"
| "marker_at _ = None"

fun place_markers :: "string \<Rightarrow> nat list" where
  "place_markers [] = []"
| "place_markers (c # cs) =
     (case marker_at (c # cs) of
        Some (n, len) \<Rightarrow> n # place_markers cs
      | None \<Rightarrow> place_markers cs)"

fun arg_subst :: "nat \<Rightarrow> string \<Rightarrow> nat \<Rightarrow> string \<Rightarrow> string" where
  "arg_subst m r k [] = []"
| "arg_subst m r (Suc k) (c # cs) = arg_subst m r k cs"
| "arg_subst m r 0 (c # cs) =
     (case marker_at (c # cs) of
        Some (n, len) \<Rightarrow>
          if n = m then r @ arg_subst m r (len - 1) cs else c # arg_subst m r 0 cs
      | None \<Rightarrow> c # arg_subst m r 0 cs)"

fun decimal :: "nat \<Rightarrow> string" where
  "decimal n =
     (if n < 10 then [char_of (48 + n)]
      else decimal (n div 10) @ [char_of (48 + n mod 10)])"

definition QString_number :: "int \<Rightarrow> string" where
  "QString_number i = (if i < 0 then CHR ''-'' # decimal (nat (- i)) else decimal (nat i))"

definition QString_arg :: "string \<Rightarrow> int \<Rightarrow> string" where
  "QString_arg s a =
     (case place_markers s of
        [] \<Rightarrow> s
      | n # ns \<Rightarrow> arg_subst (fold min ns n) (QString_number a) 0 s)"

subsection \<open>QMap\<close>

text \<open>
  \<^verbatim>\<open>states_map\<close> is a \<^verbatim>\<open>QMap\<close> from identifiers to item pointers: a finite table,
  kept as an association list. \<^verbatim>\<open>insert\<close> replaces the value of a key that is there.
\<close>

type_synonym 'v qmap = "(string \<times> 'v) list"

definition contains :: "'v qmap \<Rightarrow> string \<Rightarrow> bool" where
  "contains m k = (map_of m k \<noteq> None)"

definition qmap_value :: "'v qmap \<Rightarrow> string \<Rightarrow> 'v option" where
  "qmap_value m k = map_of m k"

definition qmap_insert :: "string \<Rightarrow> 'v \<Rightarrow> 'v qmap \<Rightarrow> 'v qmap" where
  "qmap_insert k v m = AList.update k v m"

definition qmap_keys :: "'v qmap \<Rightarrow> string set" where
  "qmap_keys m = fst ` set m"

text \<open>The longest key bounds the number of rounds of the loop of \<^verbatim>\<open>addToMap\<close>.\<close>

definition max_key_length :: "'v qmap \<Rightarrow> nat" where
  "max_key_length m = fold max (map (length \<circ> fst) m) 0"

lemma fold_max_ge: "(a::nat) \<le> fold max xs a"
  by (induction xs arbitrary: a) (auto intro: order_trans [OF max.cobounded2])

lemma fold_max_mem: "(x::nat) \<in> set xs \<Longrightarrow> x \<le> fold max xs a"
proof (induction xs arbitrary: a)
  case Nil
  then show ?case by simp
next
  case (Cons y ys)
  show ?case
  proof (cases "x = y")
    case True
    have "y \<le> max y a" by simp
    also have "\<dots> \<le> fold max ys (max y a)" by (rule fold_max_ge)
    finally show ?thesis using True by simp
  next
    case False
    with Cons show ?thesis by simp
  qed
qed

lemma contains_iff: "contains m k \<longleftrightarrow> k \<in> qmap_keys m"
  by (simp add: contains_def qmap_keys_def map_of_eq_None_iff)

lemma contains_length: "contains m k \<Longrightarrow> length k \<le> max_key_length m"
  unfolding contains_iff qmap_keys_def max_key_length_def
  by (rule fold_max_mem) force

text \<open>The loop of \<^verbatim>\<open>addToMap\<close>: \<^verbatim>\<open>while (states_map.contains(new_id)) new_id += "_";\<close>\<close>

function addToMap_loop :: "'v qmap \<Rightarrow> string \<Rightarrow> string" where
  "addToMap_loop m new_id =
     (if contains m new_id then addToMap_loop m (new_id @ ''_'') else new_id)"
  by pat_completeness auto
termination
proof (relation "measure (\<lambda>(m, new_id). Suc (max_key_length m) - length new_id)")
  show "wf (measure (\<lambda>(m :: 'v qmap, new_id). Suc (max_key_length m) - length new_id))"
    by simp
next
  fix m :: "'v qmap" and new_id
  assume "contains m new_id"
  then have "length new_id \<le> max_key_length m" by (rule contains_length)
  then show "((m, new_id @ ''_''), (m, new_id))
      \<in> measure (\<lambda>(m, new_id). Suc (max_key_length m) - length new_id)"
    by simp
qed

declare addToMap_loop.simps [simp del]

subsection \<open>The document of the parser (libcyberiada)\<close>

text \<open>
  The C structures that \<^verbatim>\<open>cyberiada_read_sm\<close> fills. A linked list (\<^verbatim>\<open>next\<close>) is a
  list; coordinates are C doubles, copied and never computed with, kept as reals. The
  code tells \<^verbatim>\<open>cybNodeInitial\<close> and \<^verbatim>\<open>cybNodeComment\<close> from every other node type.
  Of the nodes an edge points to (\<^verbatim>\<open>edge->source\<close>, \<^verbatim>\<open>edge->target\<close>) the code reads
  the identifier only, which is what the edge record holds. The fields keep their names
  behind a prefix (\<open>id\<close> and the like are constants of HOL).
\<close>

type_synonym CyberiadaSMPoint = "real \<times> real"
type_synonym CyberiadaSMSize = "real \<times> real"
type_synonym CyberiadaRect = "real \<times> real \<times> real \<times> real"

datatype CyberiadaNodeType = cybNodeInitial | cybNodeSimple | cybNodeComposite | cybNodeComment

datatype CyberiadaNode =
  Node (node_type: CyberiadaNodeType) (node_id: string) (node_title: string)
    (node_action: string) (node_geometry_rect: CyberiadaRect)
    (node_children: "CyberiadaNode list")

record CyberiadaEdge =
  edge_id :: string
  edge_source_id :: string
  edge_target_id :: string
  edge_action :: string
  geometry_source_point :: CyberiadaSMPoint
  geometry_target_point :: CyberiadaSMPoint
  geometry_polyline :: "CyberiadaSMPoint list"

record CyberiadaSM =
  doc_name :: string
  doc_version :: string
  doc_nodes :: "CyberiadaNode list"
  doc_edges :: "CyberiadaEdge list"

subsection \<open>Items\<close>

datatype CyberiadaItemType =
  nodeRoot | nodeSM | nodeStatesAggr | nodeTransitionsAggr | nodeState
  | nodeInitialState | nodeComment | nodeTransition | nodeAction

datatype geometry =
  NoGeometry
  | PointGeometry CyberiadaSMPoint
  | StateGeometry CyberiadaSMPoint CyberiadaSMSize
  | TransitionGeometry CyberiadaSMPoint CyberiadaSMPoint "CyberiadaSMPoint list"

record item =
  item_type :: CyberiadaItemType
  item_id :: string
  item_title :: string
  item_action :: string
  item_geometry :: geometry
  item_parent :: "nat option"
  item_children :: "nat list"
  item_source :: "nat option"
  item_target :: "nat option"

datatype error = AssertFailed | DanglingPointer

text \<open>
  The macros of \<^verbatim>\<open>cyberiada_constants.h\<close>, a file that is not part of the sources
  at hand: they are parameters of the model.
\<close>

record cyberiada_constants =
  SM_DEFAULT_TITLE :: string
  CYBERIADA_EMPTY_NODE_TITLE :: string
  CYBERIADA_MIME_TYPE_STATE :: string

record CyberiadaSMModel =
  heap :: "item list"
  states_map :: "nat qmap"
  root :: nat
  sm_root :: nat
  states_root :: nat
  trans_root :: nat
  sm_name :: string
  sm_version :: string
  cyberiadaStateMimeType :: string
  qrand_calls :: nat

text \<open>\<^verbatim>\<open>new\<close>: the item is put at a fresh address.\<close>

definition new_item :: "item \<Rightarrow> CyberiadaSMModel \<Rightarrow> nat \<times> CyberiadaSMModel" where
  "new_item it s = (length (heap s), s\<lparr>heap := heap s @ [it]\<rparr>)"

text \<open>
  Modelled from the spec: the item classes (\<^verbatim>\<open>cyberiadasm_item.h\<close>) are not part of the
  sources at hand. A constructor records the category, the attributes it is given and the
  owner link, with no children; \<^verbatim>\<open>addChild\<close> appends to the owner's child sequence;
  \<^verbatim>\<open>rename\<close> replaces the title; \<^verbatim>\<open>getID\<close> reads the identifier; the root item comes
  with the state machine root, which comes with the states aggregation (row 0) and the
  transitions aggregation (row 1).
\<close>

definition blank_item :: "CyberiadaItemType \<Rightarrow> nat option \<Rightarrow> item" where
  "blank_item t p =
     \<lparr>item_type = t, item_id = [], item_title = [], item_action = [],
      item_geometry = NoGeometry, item_parent = p, item_children = [],
      item_source = None, item_target = None\<rparr>"

definition CyberiadaInitialStateItem :: "string \<Rightarrow> CyberiadaSMPoint \<Rightarrow> nat \<Rightarrow> item" where
  "CyberiadaInitialStateItem i point p =
     (blank_item nodeInitialState (Some p))\<lparr>item_id := i, item_geometry := PointGeometry point\<rparr>"

definition CyberiadaCommentItem :: "string \<Rightarrow> string \<Rightarrow> geometry \<Rightarrow> nat \<Rightarrow> item" where
  "CyberiadaCommentItem i a g p =
     (blank_item nodeComment (Some p))\<lparr>item_id := i, item_action := a, item_geometry := g\<rparr>"

definition CyberiadaStateItem :: "string \<Rightarrow> string \<Rightarrow> string \<Rightarrow> geometry \<Rightarrow> nat \<Rightarrow> item" where
  "CyberiadaStateItem i t a g p =
     (blank_item nodeState (Some p))
       \<lparr>item_id := i, item_title := t, item_action := a, item_geometry := g\<rparr>"

definition CyberiadaTransitionItem ::
  "nat \<Rightarrow> nat \<Rightarrow> string \<Rightarrow> string \<Rightarrow> geometry \<Rightarrow> item" where
  "CyberiadaTransitionItem src tgt i a g =
     (blank_item nodeTransition None)
       \<lparr>item_id := i, item_action := a, item_geometry := g,
        item_source := Some src, item_target := Some tgt\<rparr>"

definition addChild :: "nat \<Rightarrow> nat \<Rightarrow> CyberiadaSMModel \<Rightarrow> CyberiadaSMModel" where
  "addChild p c s =
     s\<lparr>heap := (heap s)[p := (heap s ! p)\<lparr>item_children := item_children (heap s ! p) @ [c]\<rparr>]\<rparr>"

definition rename :: "nat \<Rightarrow> string \<Rightarrow> CyberiadaSMModel \<Rightarrow> CyberiadaSMModel" where
  "rename h t s = s\<lparr>heap := (heap s)[h := (heap s ! h)\<lparr>item_title := t\<rparr>]\<rparr>"

definition getID :: "CyberiadaSMModel \<Rightarrow> nat \<Rightarrow> string" where
  "getID s h = item_id (heap s ! h)"

definition CyberiadaRootItem :: "nat \<Rightarrow> item list" where
  "CyberiadaRootItem b =
     [(blank_item nodeRoot None)\<lparr>item_children := [b + 1]\<rparr>,
      (blank_item nodeSM (Some b))\<lparr>item_children := [b + 2, b + 3]\<rparr>,
      blank_item nodeStatesAggr (Some (b + 1)),
      blank_item nodeTransitionsAggr (Some (b + 1))]"

subsection \<open>Construction and reset\<close>

definition initTrees :: "CyberiadaSMModel \<Rightarrow> CyberiadaSMModel" where
  "initTrees s =
     (let b = length (heap s) in
      s\<lparr>heap := heap s @ CyberiadaRootItem b,
        root := b, sm_root := b + 1, states_root := b + 2, trans_root := b + 3\<rparr>)"

text \<open>
  \<^verbatim>\<open>cleanupTrees\<close> clears the index and deletes the tree. The four root pointers are set
  to \<^verbatim>\<open>NULL\<close> there and assigned again by \<^verbatim>\<open>initTrees\<close>, which follows it in \<^verbatim>\<open>reset\<close>.
\<close>

definition cleanupTrees :: "CyberiadaSMModel \<Rightarrow> CyberiadaSMModel" where
  "cleanupTrees s = s\<lparr>states_map := [], heap := []\<rparr>"

definition reset :: "CyberiadaSMModel \<Rightarrow> CyberiadaSMModel" where
  "reset s = initTrees (cleanupTrees s)"

definition CyberiadaSMModel_new :: "cyberiada_constants \<Rightarrow> CyberiadaSMModel" where
  "CyberiadaSMModel_new K =
     initTrees
       \<lparr>heap = [], states_map = [], root = 0, sm_root = 0, states_root = 0, trans_root = 0,
        sm_name = SM_DEFAULT_TITLE K, sm_version = [],
        cyberiadaStateMimeType = CYBERIADA_MIME_TYPE_STATE K, qrand_calls = 0\<rparr>"

subsection \<open>The identifier index\<close>

text \<open>
  \<^verbatim>\<open>generateID\<close>: \<^verbatim>\<open>do { num = qrand() % 10000; s = QString("id-%d").arg(num); }
  while (states_map.contains(s))\<close>. The random numbers are a parameter, the sequence
  \<open>rnd\<close> of the values \<^verbatim>\<open>qrand\<close> returns; the model counts the calls. The loop has no
  bound: \<open>None\<close> is "does not return".
\<close>

partial_function (option) generateID_loop ::
  "(nat \<Rightarrow> nat) \<Rightarrow> nat qmap \<Rightarrow> nat \<Rightarrow> (string \<times> nat) option" where
  "generateID_loop rnd m k =
     (let num = int (rnd k) mod 10000;
          s = QString_arg ''id-%d'' num
      in if contains m s then generateID_loop rnd m (Suc k) else Some (s, Suc k))"

definition generateID ::
  "(nat \<Rightarrow> nat) \<Rightarrow> CyberiadaSMModel \<Rightarrow> (string \<times> CyberiadaSMModel) option" where
  "generateID rnd s =
     (case generateID_loop rnd (states_map s) (qrand_calls s) of
        None \<Rightarrow> None
      | Some (i, k) \<Rightarrow> Some (i, s\<lparr>qrand_calls := k\<rparr>))"

definition addToMap :: "string \<Rightarrow> nat \<Rightarrow> CyberiadaSMModel \<Rightarrow> CyberiadaSMModel" where
  "addToMap i it s =
     (let new_id = addToMap_loop (states_map s) i
      in s\<lparr>states_map := qmap_insert new_id it (states_map s)\<rparr>)"

definition idToItem :: "CyberiadaSMModel \<Rightarrow> string \<Rightarrow> nat option" where
  "idToItem s i = qmap_value (states_map s) i"

subsection \<open>Conversion of the document\<close>

definition convertNode ::
  "cyberiada_constants \<Rightarrow> (nat \<Rightarrow> nat) \<Rightarrow> CyberiadaNode \<Rightarrow> nat \<Rightarrow> CyberiadaSMModel
    \<Rightarrow> (nat \<times> CyberiadaSMModel) option" where
  "convertNode K rnd node parent s =
     (case node_geometry_rect node of (x, y, width, height) \<Rightarrow>
        if node_type node = cybNodeInitial then
          Some (new_item (CyberiadaInitialStateItem (node_id node) (x, y) parent) s)
        else
          let g = StateGeometry (x, y) (width, height) in
          if node_type node = cybNodeComment then
            (case generateID rnd s of
               None \<Rightarrow> None
             | Some (i, s1) \<Rightarrow>
                 Some (new_item (CyberiadaCommentItem i (node_action node) g parent) s1))
          else
            let title = (if node_title node = [] then CYBERIADA_EMPTY_NODE_TITLE K
                         else node_title node)
            in Some (new_item
                 (CyberiadaStateItem (node_id node) title (trimmed (node_action node)) g parent)
                 s))"

text \<open>\<^verbatim>\<open>convertEdge\<close> returns \<^verbatim>\<open>NULL\<close> (here \<open>None\<close>) when an end is not in the index.\<close>

definition convertEdge ::
  "CyberiadaEdge \<Rightarrow> CyberiadaSMModel \<Rightarrow> (nat \<times> CyberiadaSMModel) option" where
  "convertEdge edge s =
     (let g = TransitionGeometry (geometry_source_point edge) (geometry_target_point edge)
                (geometry_polyline edge);
          source = qmap_value (states_map s) (edge_source_id edge);
          target = qmap_value (states_map s) (edge_target_id edge)
      in case (source, target) of
           (Some src, Some tgt) \<Rightarrow>
             Some (new_item
               (CyberiadaTransitionItem src tgt (edge_id edge) (trimmed (edge_action edge)) g) s)
         | _ \<Rightarrow> None)"

text \<open>
  \<^verbatim>\<open>addChildNodes\<close>: the loop over the siblings is the recursion on the list, the call on
  \<^verbatim>\<open>cur_node->children\<close> the recursion on the node. \<open>None\<close>: \<^verbatim>\<open>generateID\<close> did not return.
\<close>

function addChildNodes ::
  "cyberiada_constants \<Rightarrow> (nat \<Rightarrow> nat) \<Rightarrow> CyberiadaNode list \<Rightarrow> nat \<Rightarrow> bool
    \<Rightarrow> CyberiadaSMModel \<Rightarrow> CyberiadaSMModel option" where
  "addChildNodes K rnd [] parent_item toplevel s = Some s"
| "addChildNodes K rnd (cur_node # next) parent_item toplevel s =
     (case convertNode K rnd cur_node parent_item s of
        None \<Rightarrow> None
      | Some (item, s1) \<Rightarrow>
          (case (if toplevel then
                   addChildNodes K rnd (node_children cur_node) parent_item False s1
                 else
                   addChildNodes K rnd (node_children cur_node) item False
                     (addChild parent_item item (addToMap (getID s1 item) item s1)))
           of None \<Rightarrow> None
            | Some s2 \<Rightarrow> addChildNodes K rnd next parent_item toplevel s2))"
  by pat_completeness auto
termination
proof (relation "measure (\<lambda>(K, rnd, nodes, parent_item, toplevel, s). size_list size nodes)")
  show "wf (measure (\<lambda>(K :: cyberiada_constants, rnd :: nat \<Rightarrow> nat, nodes :: CyberiadaNode list,
      parent_item :: nat, toplevel :: bool, s :: CyberiadaSMModel). size_list size nodes))"
    by simp
qed (auto, (case_tac cur_node, simp)+)

definition renameSM :: "string \<Rightarrow> CyberiadaSMModel \<Rightarrow> CyberiadaSMModel" where
  "renameSM new_name s =
     (if length new_name > 0 then rename (sm_root s) new_name (s\<lparr>sm_name := new_name\<rparr>)
      else s)"

text \<open>The loop of \<^verbatim>\<open>loadGraph\<close> over the edges; it returns at the first edge that fails.\<close>

fun loadGraph_edges :: "CyberiadaEdge list \<Rightarrow> CyberiadaSMModel \<Rightarrow> CyberiadaSMModel" where
  "loadGraph_edges [] s = s"
| "loadGraph_edges (cur_edge # next) s =
     (case convertEdge cur_edge s of
        None \<Rightarrow> s
      | Some (item, s1) \<Rightarrow> loadGraph_edges next (addChild (trans_root s1) item s1))"

text \<open>
  \<^verbatim>\<open>loadGraph\<close>. The outcome of \<^verbatim>\<open>cyberiada_read_sm\<close> is the argument: \<open>Inl res\<close> an error
  code, \<open>Inr sm\<close> the document read.
\<close>

definition loadGraph ::
  "cyberiada_constants \<Rightarrow> (nat \<Rightarrow> nat) \<Rightarrow> int + CyberiadaSM \<Rightarrow> CyberiadaSMModel
    \<Rightarrow> CyberiadaSMModel option" where
  "loadGraph K rnd read_sm s0 =
     (let s = reset s0 in
      case read_sm of
        Inl res \<Rightarrow> Some s
      | Inr sm \<Rightarrow>
          (let s1 = renameSM (doc_name sm) (s\<lparr>sm_version := doc_version sm\<rparr>) in
           case addChildNodes K rnd (doc_nodes sm) (states_root s1) True s1 of
             None \<Rightarrow> None
           | Some s2 \<Rightarrow> Some (loadGraph_edges (doc_edges sm) s2)))"

subsection \<open>Addresses (QModelIndex)\<close>

text \<open>
  A \<^verbatim>\<open>QModelIndex\<close> holds a row, a column and the internal pointer; the default one is
  \<open>(-1, -1, NULL)\<close>. It is valid when row and column are not negative (every index with
  such a row and column comes from \<^verbatim>\<open>createIndex\<close> of this model). Two are equal when
  the three parts are. Rows and columns are C ints that are only compared, never computed
  with: they are integers here.
\<close>

record QModelIndex =
  idx_row :: int
  idx_column :: int
  internalPointer :: "nat option"

definition QModelIndex_default :: QModelIndex where
  "QModelIndex_default = \<lparr>idx_row = - 1, idx_column = - 1, internalPointer = None\<rparr>"

definition isValid :: "QModelIndex \<Rightarrow> bool" where
  "isValid i = (idx_row i \<ge> 0 \<and> idx_column i \<ge> 0)"

definition createIndex :: "int \<Rightarrow> int \<Rightarrow> nat \<Rightarrow> QModelIndex" where
  "createIndex r c p = \<lparr>idx_row = r, idx_column = c, internalPointer = Some p\<rparr>"

definition rootIndex :: "CyberiadaSMModel \<Rightarrow> QModelIndex" where
  "rootIndex s = createIndex 0 0 (root s)"

definition SMIndex :: "CyberiadaSMModel \<Rightarrow> QModelIndex" where
  "SMIndex s = createIndex 0 0 (sm_root s)"

definition statesRootIndex :: "CyberiadaSMModel \<Rightarrow> QModelIndex" where
  "statesRootIndex s = createIndex 0 0 (states_root s)"

definition transitionsRootIndex :: "CyberiadaSMModel \<Rightarrow> QModelIndex" where
  "transitionsRootIndex s = createIndex 1 0 (trans_root s)"

text \<open>
  \<^verbatim>\<open>static_cast<Item*>(p)\<close> followed by \<^verbatim>\<open>MY_ASSERT(item)\<close> and a use of the item: the
  assertion fires on \<^verbatim>\<open>NULL\<close>; a pointer to nothing allocated has no meaning in C++ and
  is an error of its own here.
\<close>

definition deref :: "CyberiadaSMModel \<Rightarrow> nat option \<Rightarrow> error + item" where
  "deref s p =
     (case p of
        None \<Rightarrow> Inl AssertFailed
      | Some h \<Rightarrow> if h < length (heap s) then Inr (heap s ! h) else Inl DanglingPointer)"

definition isStateIndex :: "CyberiadaSMModel \<Rightarrow> QModelIndex \<Rightarrow> error + bool" where
  "isStateIndex s idx =
     (if \<not> isValid idx then Inr False
      else case deref s (internalPointer idx) of
             Inl e \<Rightarrow> Inl e
           | Inr item \<Rightarrow> Inr (item_type item = nodeState))"

definition isInitialStateIndex :: "CyberiadaSMModel \<Rightarrow> QModelIndex \<Rightarrow> error + bool" where
  "isInitialStateIndex s idx =
     (if \<not> isValid idx then Inr False
      else case deref s (internalPointer idx) of
             Inl e \<Rightarrow> Inl e
           | Inr item \<Rightarrow> Inr (item_type item = nodeInitialState))"

definition isTransitionIndex :: "CyberiadaSMModel \<Rightarrow> QModelIndex \<Rightarrow> error + bool" where
  "isTransitionIndex s idx =
     (if \<not> isValid idx then Inr False
      else case deref s (internalPointer idx) of
             Inl e \<Rightarrow> Inl e
           | Inr item \<Rightarrow> Inr (item_type item = nodeTransition))"

definition isActionIndex :: "CyberiadaSMModel \<Rightarrow> QModelIndex \<Rightarrow> error + bool" where
  "isActionIndex s idx =
     (if \<not> isValid idx then Inr False
      else case deref s (internalPointer idx) of
             Inl e \<Rightarrow> Inl e
           | Inr item \<Rightarrow> Inr (item_type item = nodeAction))"

definition indexToItem :: "CyberiadaSMModel \<Rightarrow> QModelIndex \<Rightarrow> nat option" where
  "indexToItem s idx = (if \<not> isValid idx then Some (root s) else internalPointer idx)"

text \<open>Modelled from the spec: \<^verbatim>\<open>childCount\<close> and \<^verbatim>\<open>child\<close> of the item classes.\<close>

definition childCount :: "item \<Rightarrow> int" where
  "childCount it = int (length (item_children it))"

definition child :: "item \<Rightarrow> int \<Rightarrow> nat option" where
  "child it r =
     (if 0 \<le> r \<and> r < childCount it then Some (item_children it ! nat r) else None)"

definition hasIndex :: "CyberiadaSMModel \<Rightarrow> int \<Rightarrow> int \<Rightarrow> QModelIndex \<Rightarrow> error + bool" where
  "hasIndex s r c parent =
     (if c > 0 then Inr False
      else if \<not> isValid parent then Inr (r = 0)
      else case deref s (internalPointer parent) of
             Inl e \<Rightarrow> Inl e
           | Inr parentItem \<Rightarrow>
               if childCount parentItem > 0 then Inr (r \<ge> 0 \<and> r < childCount parentItem)
               else Inr False)"

definition index :: "CyberiadaSMModel \<Rightarrow> int \<Rightarrow> int \<Rightarrow> QModelIndex \<Rightarrow> error + QModelIndex" where
  "index s r c parent =
     (if \<not> isValid parent then Inr QModelIndex_default
      else case hasIndex s r c parent of
             Inl e \<Rightarrow> Inl e
           | Inr ok \<Rightarrow>
               if \<not> ok then Inr QModelIndex_default
               else case deref s (internalPointer parent) of
                      Inl e \<Rightarrow> Inl e
                    | Inr parentItem \<Rightarrow>
                        (case child parentItem r of
                           None \<Rightarrow> Inl AssertFailed
                         | Some childItem \<Rightarrow> Inr (createIndex r c childItem)))"

subsection \<open>Editing\<close>

definition EditRole :: int where
  "EditRole = 2"

text \<open>
  \<^verbatim>\<open>setData\<close>; the \<^verbatim>\<open>QVariant\<close> is the string \<^verbatim>\<open>value.toString()\<close> gives. The condition
  is evaluated from left to right and stops as soon as it is decided, as \<^verbatim>\<open>&&\<close> and
  \<^verbatim>\<open>||\<close> do. The result is the truth value returned and the model after the call.
\<close>

definition setData_allowed :: "CyberiadaSMModel \<Rightarrow> QModelIndex \<Rightarrow> int \<Rightarrow> error + bool" where
  "setData_allowed s idx role =
     (if isValid idx \<and> role = EditRole \<and> idx_column idx = 0 then
        (if idx = SMIndex s then Inr True
         else case isStateIndex s idx of
                Inl e \<Rightarrow> Inl e
              | Inr st \<Rightarrow> if st then Inr True else isActionIndex s idx)
      else Inr False)"

definition setData ::
  "CyberiadaSMModel \<Rightarrow> QModelIndex \<Rightarrow> string \<Rightarrow> int \<Rightarrow> error + (bool \<times> CyberiadaSMModel)" where
  "setData s idx newStr role =
     (case setData_allowed s idx role of
        Inl e \<Rightarrow> Inl e
      | Inr allowed \<Rightarrow>
          if allowed then
            (case isActionIndex s idx of
               Inl e \<Rightarrow> Inl e
             | Inr act \<Rightarrow>
                 if \<not> act \<and> newStr = [] then Inr (False, s)
                 else case internalPointer idx of
                        None \<Rightarrow> Inl AssertFailed
                      | Some item \<Rightarrow> Inr (True, rename item newStr s))
          else Inr (False, s))"

subsection \<open>Drag and drop\<close>

text \<open>
  \<^verbatim>\<open>move\<close>. In the source the whole body is inside a comment: the function that is
  compiled has no statement and leaves the model as it is.
\<close>

definition move :: "nat \<Rightarrow> nat option \<Rightarrow> CyberiadaSMModel \<Rightarrow> CyberiadaSMModel" where
  "move item target_item s = s"

definition mimeTypes :: "CyberiadaSMModel \<Rightarrow> string list" where
  "mimeTypes s = [cyberiadaStateMimeType s]"

text \<open>
  \<^verbatim>\<open>mimeData\<close>. The \<^verbatim>\<open>QDataStream\<close> is the sequence of the strings written to it; the
  result is the one format of the \<^verbatim>\<open>QMimeData\<close> with its data.
\<close>

fun mimeData_loop ::
  "CyberiadaSMModel \<Rightarrow> QModelIndex list \<Rightarrow> string list \<Rightarrow> error + string list" where
  "mimeData_loop s [] stream = Inr stream"
| "mimeData_loop s (idx # rest) stream =
     (if idx_column idx \<noteq> 0 then mimeData_loop s rest stream
      else case isStateIndex s idx of
             Inl e \<Rightarrow> Inl e
           | Inr st \<Rightarrow>
               (case (if st then Inr True else isInitialStateIndex s idx) of
                  Inl e \<Rightarrow> Inl e
                | Inr keep \<Rightarrow>
                    if \<not> keep then mimeData_loop s rest stream
                    else case deref s (indexToItem s idx) of
                           Inl e \<Rightarrow> Inl e
                         | Inr item \<Rightarrow> mimeData_loop s rest (stream @ [item_id item])))"

definition mimeData ::
  "CyberiadaSMModel \<Rightarrow> QModelIndex list \<Rightarrow> error + (string \<times> string list)" where
  "mimeData s indexes =
     (case mimeData_loop s indexes [] of
        Inl e \<Rightarrow> Inl e
      | Inr encodedData \<Rightarrow> Inr (cyberiadaStateMimeType s, encodedData))"

section \<open>Notions of the specification\<close>

text \<open>
  An address of an item: the default address, or one with a row that is not negative
  whose pointer is an allocated item.
\<close>

definition item_address :: "CyberiadaSMModel \<Rightarrow> QModelIndex \<Rightarrow> bool" where
  "item_address s idx =
     (idx = QModelIndex_default
      \<or> (0 \<le> idx_row idx
          \<and> (case internalPointer idx of None \<Rightarrow> False | Some h \<Rightarrow> h < length (heap s))))"

text \<open>
  Serialization as the specification words it: of the given addresses, those with column 0
  whose item is a state or an initial state give their identifiers, in the order given,
  under the media type of the model.
\<close>

definition serialize_spec :: "CyberiadaSMModel \<Rightarrow> QModelIndex list \<Rightarrow> string \<times> string list" where
  "serialize_spec s items =
     (cyberiadaStateMimeType s,
      concat (map (\<lambda>idx.
        case internalPointer idx of
          None \<Rightarrow> []
        | Some h \<Rightarrow>
            if idx_column idx = 0 \<and> h < length (heap s)
               \<and> item_type (heap s ! h) \<in> {nodeState, nodeInitialState}
            then [item_id (heap s ! h)] else []) items))"

text \<open>
  The nodes of a forest of the document with all their descendants, in the order the
  converter visits them; the nodes below the top level.
\<close>

fun all_nodes :: "CyberiadaNode list \<Rightarrow> CyberiadaNode list" where
  "all_nodes [] = []"
| "all_nodes (Node t i ti a g cs # ns) = Node t i ti a g cs # all_nodes cs @ all_nodes ns"

definition below_top :: "CyberiadaNode list \<Rightarrow> CyberiadaNode list" where
  "below_top nodes = all_nodes (concat (map node_children nodes))"

text \<open>
  The forest a call of \<^verbatim>\<open>addChildNodes\<close> turns into items: the nodes themselves, or
  their children when the call is the top-level one.
\<close>

definition forest_of :: "bool \<Rightarrow> CyberiadaNode list \<Rightarrow> CyberiadaNode list" where
  "forest_of toplevel nodes = (if toplevel then concat (map node_children nodes) else nodes)"

fun forest_height :: "CyberiadaNode list \<Rightarrow> nat" where
  "forest_height [] = 0"
| "forest_height (Node t i ti a g cs # ns) = max (Suc (forest_height cs)) (forest_height ns)"

text \<open>
  An item built for a node under an owner: it has the node's category, the node's
  identifier (a comment has a generated one) and the owner as its owner link.
\<close>

definition item_for :: "CyberiadaNode \<Rightarrow> nat \<Rightarrow> item \<Rightarrow> bool" where
  "item_for n owner it =
     (item_type it =
        (case node_type n of
           cybNodeInitial \<Rightarrow> nodeInitialState
         | cybNodeComment \<Rightarrow> nodeComment
         | _ \<Rightarrow> nodeState)
      \<and> (node_type n = cybNodeComment \<or> item_id it = node_id n)
      \<and> item_parent it = Some owner)"

text \<open>
  An item registered in the index: some key looks up to it, and the key is the item's
  identifier followed by marker characters.
\<close>

definition registered :: "CyberiadaSMModel \<Rightarrow> nat \<Rightarrow> bool" where
  "registered s h =
     (\<exists>(k, v)\<in>set (states_map s).
        v = h \<and> idToItem s k = Some h
        \<and> (\<exists>j\<le>length k. k = item_id (heap s ! h) @ replicate j CHR ''_''))"

text \<open>
  The items \<open>hs\<close>, children of \<open>owner\<close>, are the conversion of the forest \<open>ns\<close>: one item
  per node, in order, each allocated at or after address \<open>b\<close>, built for its node,
  registered, and with children that are the conversion of the node's children.
\<close>

fun builds :: "nat \<Rightarrow> CyberiadaSMModel \<Rightarrow> nat \<Rightarrow> nat list \<Rightarrow> CyberiadaNode list \<Rightarrow> bool" where
  "builds b s owner [] [] = True"
| "builds b s owner (h # hs) (Node t i ti a g cs # ns) =
     (b \<le> h \<and> h < length (heap s)
      \<and> item_for (Node t i ti a g cs) owner (heap s ! h)
      \<and> registered s h
      \<and> builds b s h (item_children (heap s ! h)) cs
      \<and> builds b s owner hs ns)"
| "builds b s owner _ _ = False"

text \<open>
  From \<open>s\<close> to \<open>s'\<close> the store has grown: of the items of \<open>s\<close> only \<open>p\<close> has changed, by
  the children \<open>new\<close> appended to it; the index has only gained entries; the four root
  pointers are the same.
\<close>

definition grown :: "CyberiadaSMModel \<Rightarrow> CyberiadaSMModel \<Rightarrow> nat \<Rightarrow> nat list \<Rightarrow> bool" where
  "grown s s' p new =
     (length (heap s) \<le> length (heap s')
      \<and> (\<forall>h<length (heap s). h \<noteq> p \<longrightarrow> heap s' ! h = heap s ! h)
      \<and> heap s' ! p = (heap s ! p)\<lparr>item_children := item_children (heap s ! p) @ new\<rparr>
      \<and> (\<exists>ext. states_map s' = states_map s @ ext)
      \<and> root s' = root s \<and> sm_root s' = sm_root s
      \<and> states_root s' = states_root s \<and> trans_root s' = trans_root s)"

text \<open>
  The items below an item, at any depth, by a walk down the child sequences. The walk is
  bounded by a number of levels; a tree has fewer levels than the store has items.
\<close>

fun items_below :: "nat \<Rightarrow> CyberiadaSMModel \<Rightarrow> nat \<Rightarrow> nat list" where
  "items_below 0 s h = []"
| "items_below (Suc f) s h =
     concat (map (\<lambda>c. c # items_below f s c) (item_children (heap s ! h)))"

definition hierarchy_below :: "CyberiadaSMModel \<Rightarrow> nat \<Rightarrow> nat list" where
  "hierarchy_below s h = items_below (length (heap s)) s h"

text \<open>
  Both ends of an edge are in the index; an item is the transition of an edge, with the
  items the index holds under the edge's source and target identifiers as its ends.
\<close>

definition resolves :: "CyberiadaSMModel \<Rightarrow> CyberiadaEdge \<Rightarrow> bool" where
  "resolves s e =
     (edge_source_id e \<in> qmap_keys (states_map s) \<and> edge_target_id e \<in> qmap_keys (states_map s))"

definition is_transition_of :: "CyberiadaSMModel \<Rightarrow> nat \<Rightarrow> CyberiadaEdge \<Rightarrow> bool" where
  "is_transition_of s h e =
     (h < length (heap s)
      \<and> item_type (heap s ! h) = nodeTransition
      \<and> item_id (heap s ! h) = edge_id e
      \<and> item_source (heap s ! h) \<noteq> None
      \<and> item_target (heap s ! h) \<noteq> None
      \<and> item_source (heap s ! h) = idToItem s (edge_source_id e)
      \<and> item_target (heap s ! h) = idToItem s (edge_target_id e))"

text \<open>
  The item of a node, by category and identifier (the identifier of a comment is a
  generated one). The items a forest has been converted into, in document order: each
  item before the items of its node's children.
\<close>

definition node_item :: "CyberiadaNode \<Rightarrow> item \<Rightarrow> bool" where
  "node_item n it =
     (item_type it =
        (case node_type n of
           cybNodeInitial \<Rightarrow> nodeInitialState
         | cybNodeComment \<Rightarrow> nodeComment
         | _ \<Rightarrow> nodeState)
      \<and> (node_type n = cybNodeComment \<or> item_id it = node_id n))"

fun built :: "CyberiadaSMModel \<Rightarrow> nat list \<Rightarrow> CyberiadaNode list \<Rightarrow> nat list" where
  "built s (h # hs) (Node t i ti a g cs # ns) =
     h # built s (item_children (heap s ! h)) cs @ built s hs ns"
| "built s _ _ = []"

text \<open>
  The identifier index as the specification words it: an item is inserted under its
  identifier, or under that identifier with the marker character appended until it is
  unused. \<open>commit ks i\<close> is the identifier committed for \<open>i\<close> when the identifiers \<open>ks\<close>
  are in use; \<open>registered_ids\<close> lists, in document order, the identifiers the nodes below
  the top level are registered under (a comment goes in with its generated identifier).
\<close>

definition key_id :: "CyberiadaNode \<Rightarrow> string" where
  "key_id n = (if node_type n = cybNodeComment then ''id-%d'' else node_id n)"

definition commit :: "string list \<Rightarrow> string \<Rightarrow> string" where
  "commit ks i = addToMap_loop (map (\<lambda>k. (k, ())) ks) i"

fun committed_ids :: "string list \<Rightarrow> CyberiadaNode list \<Rightarrow> string list" where
  "committed_ids ks [] = []"
| "committed_ids ks (n # ns) =
     commit ks (key_id n) # committed_ids (ks @ [commit ks (key_id n)]) ns"

definition registered_ids :: "CyberiadaNode list \<Rightarrow> string list" where
  "registered_ids nodes = committed_ids [] (below_top nodes)"

text \<open>
  Conditions on a document. Every end of every edge names a node below the top level.
  An identifier is the identifier of a node below the top level and the one that node is
  registered under; every end of every edge is such an identifier.
\<close>

definition endpoints_declared :: "CyberiadaSM \<Rightarrow> bool" where
  "endpoints_declared sm =
     (\<forall>e\<in>set (doc_edges sm).
        edge_source_id e \<in> node_id ` set (below_top (doc_nodes sm))
        \<and> edge_target_id e \<in> node_id ` set (below_top (doc_nodes sm)))"

definition own_id_registered :: "CyberiadaNode list \<Rightarrow> string \<Rightarrow> bool" where
  "own_id_registered nodes i =
     list_ex (\<lambda>(k, n). k = i \<and> node_id n = i) (zip (registered_ids nodes) (below_top nodes))"

definition endpoints_resolvable :: "CyberiadaSM \<Rightarrow> bool" where
  "endpoints_resolvable sm =
     (\<forall>e\<in>set (doc_edges sm).
        own_id_registered (doc_nodes sm) (edge_source_id e)
        \<and> own_id_registered (doc_nodes sm) (edge_target_id e))"

text \<open>
  The nodes in the order \<^verbatim>\<open>addChildNodes\<close> visits them, each with the mark "below the
  top level" (those are the registered ones). Once a comment or a node named \<open>id-%d\<close> has
  been registered the index holds \<open>id-%d\<close>. The condition under which every call of
  \<^verbatim>\<open>generateID\<close> returns: no comment node, at the top level or below, comes after such
  a node.
\<close>

fun visit :: "bool \<Rightarrow> CyberiadaNode list \<Rightarrow> (bool \<times> CyberiadaNode) list" where
  "visit toplevel [] = []"
| "visit toplevel (Node t i ti a g cs # ns) =
     (\<not> toplevel, Node t i ti a g cs) # visit False cs @ visit toplevel ns"

definition occupies :: "bool \<times> CyberiadaNode \<Rightarrow> bool" where
  "occupies x = (fst x \<and> (node_type (snd x) = cybNodeComment \<or> node_id (snd x) = ''id-%d''))"

fun generate_ok :: "bool \<Rightarrow> (bool \<times> CyberiadaNode) list \<Rightarrow> bool" where
  "generate_ok held [] = True"
| "generate_ok held (x # xs) =
     ((node_type (snd x) = cybNodeComment \<longrightarrow> \<not> held) \<and> generate_ok (held \<or> occupies x) xs)"

definition comments_convertible :: "CyberiadaNode list \<Rightarrow> bool" where
  "comments_convertible nodes = generate_ok False (visit True nodes)"

text \<open>The index of a model does not hold \<open>id-%d\<close>.\<close>

definition fresh :: "CyberiadaSMModel \<Rightarrow> bool" where
  "fresh s = (''id-%d'' \<notin> qmap_keys (states_map s))"

text \<open>
  The ends of the transition \<open>t\<close> are the items of the nodes the edge \<open>e\<close> names: for
  each end, a node below the top level has the identifier, is registered under it, and
  the item at that node's place in the hierarchy below the states aggregation is the end.
\<close>

definition joins :: "CyberiadaSMModel \<Rightarrow> CyberiadaNode list \<Rightarrow> nat \<Rightarrow> CyberiadaEdge \<Rightarrow> bool" where
  "joins s nodes t e =
     (\<exists>a\<in>{..<length (below_top nodes)}. \<exists>b\<in>{..<length (below_top nodes)}.
        node_id (below_top nodes ! a) = edge_source_id e
        \<and> registered_ids nodes ! a = edge_source_id e
        \<and> node_id (below_top nodes ! b) = edge_target_id e
        \<and> registered_ids nodes ! b = edge_target_id e
        \<and> item_source (heap s ! t) = Some (hierarchy_below s (states_root s) ! a)
        \<and> item_target (heap s ! t) = Some (hierarchy_below s (states_root s) ! b))"

section \<open>Example inputs\<close>

definition example_constants :: cyberiada_constants where
  "example_constants =
     \<lparr>SM_DEFAULT_TITLE = ''SM'', CYBERIADA_EMPTY_NODE_TITLE = ''State'',
      CYBERIADA_MIME_TYPE_STATE = ''application/x-cyberiada-state''\<rparr>"

definition example_rnd :: "nat \<Rightarrow> nat" where
  "example_rnd k = 0"

definition example_edge :: "string \<Rightarrow> string \<Rightarrow> string \<Rightarrow> string \<Rightarrow> CyberiadaEdge" where
  "example_edge i src tgt a =
     \<lparr>edge_id = i, edge_source_id = src, edge_target_id = tgt, edge_action = a,
      geometry_source_point = (0, 0), geometry_target_point = (0, 0), geometry_polyline = []\<rparr>"

text \<open>
  A state machine "Light": under the top-level node, the states \<open>s1\<close> and \<open>s2\<close> and the
  comment \<open>c1\<close>; the edge \<open>e1\<close> from \<open>s1\<close> to \<open>s2\<close> and the edge \<open>e2\<close> from the comment
  to \<open>s1\<close>.
\<close>

definition example_nodes :: "CyberiadaNode list" where
  "example_nodes =
     [Node cybNodeComposite ''G'' ''Light'' [] (0, 0, 0, 0)
        [Node cybNodeSimple ''s1'' ''Off'' [] (0, 0, 0, 0) [],
         Node cybNodeSimple ''s2'' ''On'' [] (0, 0, 0, 0) [],
         Node cybNodeComment ''c1'' [] ''note'' (0, 0, 0, 0) []]]"

definition example_doc :: CyberiadaSM where
  "example_doc =
     \<lparr>doc_name = ''Light'', doc_version = ''1.0'', doc_nodes = example_nodes,
      doc_edges = [example_edge ''e1'' ''s1'' ''s2'' ''turn_on'',
                   example_edge ''e2'' ''c1'' ''s1'' []]\<rparr>"

text \<open>The model after \<^verbatim>\<open>loadGraph\<close> on that document (lemma \<open>example_load\<close>).\<close>

definition example_heap :: "item list" where
  "example_heap =
     [(blank_item nodeRoot None)\<lparr>item_children := [1]\<rparr>,
      (blank_item nodeSM (Some 0))\<lparr>item_title := ''Light'', item_children := [2, 3]\<rparr>,
      (blank_item nodeStatesAggr (Some 1))\<lparr>item_children := [5, 6, 7]\<rparr>,
      (blank_item nodeTransitionsAggr (Some 1))\<lparr>item_children := [8]\<rparr>,
      CyberiadaStateItem ''G'' ''Light'' [] (StateGeometry (0, 0) (0, 0)) 2,
      CyberiadaStateItem ''s1'' ''Off'' [] (StateGeometry (0, 0) (0, 0)) 2,
      CyberiadaStateItem ''s2'' ''On'' [] (StateGeometry (0, 0) (0, 0)) 2,
      CyberiadaCommentItem ''id-%d'' ''note'' (StateGeometry (0, 0) (0, 0)) 2,
      CyberiadaTransitionItem 5 6 ''e1'' ''turn_on'' (TransitionGeometry (0, 0) (0, 0) [])]"

definition example_loaded :: CyberiadaSMModel where
  "example_loaded =
     \<lparr>heap = example_heap,
      states_map = [(''s1'', 5), (''s2'', 6), (''id-%d'', 7)],
      root = 0, sm_root = 1, states_root = 2, trans_root = 3,
      sm_name = ''Light'', sm_version = ''1.0'',
      cyberiadaStateMimeType = ''application/x-cyberiada-state'', qrand_calls = 1\<rparr>"

text \<open>A document with two comments under its top-level node.\<close>

definition two_comments_doc :: CyberiadaSM where
  "two_comments_doc =
     \<lparr>doc_name = ''Notes'', doc_version = ''1.0'',
      doc_nodes =
        [Node cybNodeComposite ''G'' ''Notes'' [] (0, 0, 0, 0)
           [Node cybNodeComment ''c1'' [] ''first'' (0, 0, 0, 0) [],
            Node cybNodeComment ''c2'' [] ''second'' (0, 0, 0, 0) []]],
      doc_edges = []\<rparr>"

text \<open>The same state machine without the comment and its edge.\<close>

definition light_doc :: CyberiadaSM where
  "light_doc =
     \<lparr>doc_name = ''Light'', doc_version = ''1.0'',
      doc_nodes =
        [Node cybNodeComposite ''G'' ''Light'' [] (0, 0, 0, 0)
           [Node cybNodeSimple ''s1'' ''Off'' [] (0, 0, 0, 0) [],
            Node cybNodeSimple ''s2'' ''On'' [] (0, 0, 0, 0) []]],
      doc_edges =
        [\<lparr>edge_id = ''e1'', edge_source_id = ''s1'', edge_target_id = ''s2'',
          edge_action = ''turn_on'', geometry_source_point = (0, 0),
          geometry_target_point = (0, 0), geometry_polyline = []\<rparr>]\<rparr>"

text \<open>
  A document with an identifier used twice: two states named \<open>s1\<close>, then a state named
  \<open>s1_\<close>, and an edge from \<open>s1\<close> to \<open>s1_\<close>.
\<close>

definition dup_doc :: CyberiadaSM where
  "dup_doc =
     \<lparr>doc_name = ''Twice'', doc_version = ''1.0'',
      doc_nodes =
        [Node cybNodeComposite ''G'' ''Twice'' [] (0, 0, 0, 0)
           [Node cybNodeSimple ''s1'' ''A'' [] (0, 0, 0, 0) [],
            Node cybNodeSimple ''s1'' ''B'' [] (0, 0, 0, 0) [],
            Node cybNodeSimple ''s1_'' ''C'' [] (0, 0, 0, 0) []]],
      doc_edges = [example_edge ''e1'' ''s1'' ''s1_'' []]\<rparr>"

definition dup_loaded :: CyberiadaSMModel where
  "dup_loaded =
     \<lparr>heap =
        [(blank_item nodeRoot None)\<lparr>item_children := [1]\<rparr>,
         (blank_item nodeSM (Some 0))\<lparr>item_title := ''Twice'', item_children := [2, 3]\<rparr>,
         (blank_item nodeStatesAggr (Some 1))\<lparr>item_children := [5, 6, 7]\<rparr>,
         (blank_item nodeTransitionsAggr (Some 1))\<lparr>item_children := [8]\<rparr>,
         CyberiadaStateItem ''G'' ''Twice'' [] (StateGeometry (0, 0) (0, 0)) 2,
         CyberiadaStateItem ''s1'' ''A'' [] (StateGeometry (0, 0) (0, 0)) 2,
         CyberiadaStateItem ''s1'' ''B'' [] (StateGeometry (0, 0) (0, 0)) 2,
         CyberiadaStateItem ''s1_'' ''C'' [] (StateGeometry (0, 0) (0, 0)) 2,
         CyberiadaTransitionItem 5 6 ''e1'' [] (TransitionGeometry (0, 0) (0, 0) [])],
      states_map = [(''s1'', 5), (''s1_'', 6), (''s1__'', 7)],
      root = 0, sm_root = 1, states_root = 2, trans_root = 3,
      sm_name = ''Twice'', sm_version = ''1.0'',
      cyberiadaStateMimeType = ''application/x-cyberiada-state'', qrand_calls = 0\<rparr>"

section \<open>The identifier index\<close>

lemma QString_arg_id: "QString_arg ''id-%d'' n = ''id-%d''"
  by (simp add: QString_arg_def isDigit_def)

lemma generateID_loop_fresh:
  "\<not> contains m ''id-%d'' \<Longrightarrow> generateID_loop rnd m k = Some (''id-%d'', Suc k)"
  by (subst generateID_loop.simps) (simp add: QString_arg_id)

lemma generateID_loop_Some:
  "generateID_loop rnd m k = Some r \<Longrightarrow> \<not> contains m ''id-%d''"
  by (erule generateID_loop.raw_induct [where P = "\<lambda>rnd m k r. \<not> contains m ''id-%d''", rotated])
    (auto simp: QString_arg_id Let_def split: if_splits)

lemma generateID_loop_stuck:
  "contains m ''id-%d'' \<Longrightarrow> generateID_loop rnd m k = None"
  using generateID_loop_Some [of rnd m k] by (cases "generateID_loop rnd m k") auto

lemma generateID_iff:
  "generateID rnd s =
     (if contains (states_map s) ''id-%d'' then None
      else Some (''id-%d'', s\<lparr>qrand_calls := Suc (qrand_calls s)\<rparr>))"
  by (simp add: generateID_def generateID_loop_fresh generateID_loop_stuck)

lemma addToMap_loop_char:
  "\<exists>k. addToMap_loop m i = i @ replicate k CHR ''_''
     \<and> \<not> contains m (i @ replicate k CHR ''_'')
     \<and> (\<forall>j<k. contains m (i @ replicate j CHR ''_''))"
proof (induction m i rule: addToMap_loop.induct)
  case (1 m new_id)
  show ?case
  proof (cases "contains m new_id")
    case False
    then have "addToMap_loop m new_id = new_id" by (simp add: addToMap_loop.simps)
    with False show ?thesis by (intro exI [of _ 0]) simp
  next
    case True
    from 1 [OF True] obtain k where k:
      "addToMap_loop m (new_id @ ''_'') = (new_id @ ''_'') @ replicate k CHR ''_''"
      "\<not> contains m ((new_id @ ''_'') @ replicate k CHR ''_'')"
      "\<forall>j<k. contains m ((new_id @ ''_'') @ replicate j CHR ''_'')"
      by blast
    have app: "\<And>j. (new_id @ ''_'') @ replicate j CHR ''_'' = new_id @ replicate (Suc j) CHR ''_''"
      by simp
    have "addToMap_loop m new_id = new_id @ replicate (Suc k) CHR ''_''"
      using True k(1) unfolding app by (subst addToMap_loop.simps) simp
    moreover have "\<not> contains m (new_id @ replicate (Suc k) CHR ''_'')"
      using k(2) unfolding app .
    moreover have "\<forall>j<Suc k. contains m (new_id @ replicate j CHR ''_'')"
    proof (intro allI impI)
      fix j assume "j < Suc k"
      show "contains m (new_id @ replicate j CHR ''_'')"
      proof (cases j)
        case 0
        with True show ?thesis by simp
      next
        case (Suc j')
        with \<open>j < Suc k\<close> have "j' < k" by simp
        with k(3) have "contains m ((new_id @ ''_'') @ replicate j' CHR ''_'')" by blast
        then show ?thesis unfolding Suc app .
      qed
    qed
    ultimately show ?thesis by blast
  qed
qed

lemma AList_update_fresh: "k \<notin> fst ` set m \<Longrightarrow> AList.update k v m = m @ [(k, v)]"
  by (induction m) auto

lemma addToMap_committed:
  "\<exists>k. i @ replicate k CHR ''_'' \<notin> qmap_keys (states_map s)
     \<and> (\<forall>j<k. i @ replicate j CHR ''_'' \<in> qmap_keys (states_map s))
     \<and> addToMap i it s = s\<lparr>states_map := states_map s @ [(i @ replicate k CHR ''_'', it)]\<rparr>"
proof -
  from addToMap_loop_char [of "states_map s" i] obtain k where k:
    "addToMap_loop (states_map s) i = i @ replicate k CHR ''_''"
    "\<not> contains (states_map s) (i @ replicate k CHR ''_'')"
    "\<forall>j<k. contains (states_map s) (i @ replicate j CHR ''_'')"
    by blast
  from k(2) have "addToMap i it s = s\<lparr>states_map := states_map s @ [(i @ replicate k CHR ''_'', it)]\<rparr>"
    by (simp add: addToMap_def k(1) qmap_insert_def AList_update_fresh contains_iff qmap_keys_def)
  with k(2,3) show ?thesis unfolding contains_iff by blast
qed

lemma addToMap_fresh:
  "\<not> contains (states_map s) i \<Longrightarrow> addToMap i it s = s\<lparr>states_map := states_map s @ [(i, it)]\<rparr>"
  by (simp add: addToMap_def addToMap_loop.simps qmap_insert_def AList_update_fresh
      contains_iff qmap_keys_def)

lemma addToMap_distinct:
  "distinct (map fst (states_map s)) \<Longrightarrow> distinct (map fst (states_map (addToMap i it s)))"
  using addToMap_committed [of i s it] by (auto simp: qmap_keys_def)

lemma addToMap_length: "length (states_map (addToMap i it s)) = Suc (length (states_map s))"
  using addToMap_committed [of i s it] by auto

lemma inserts_distinct:
  "distinct (map fst (states_map s)) \<Longrightarrow>
   distinct (map fst (states_map (fold (\<lambda>(i, it). addToMap i it) ops s)))"
  by (induction ops arbitrary: s) (auto simp: addToMap_distinct)

lemma inserts_length:
  "length (states_map (fold (\<lambda>(i, it). addToMap i it) ops s)) = length (states_map s) + length ops"
  by (induction ops arbitrary: s) (auto simp: addToMap_length)

text \<open>
  C5. In an index whose identifiers are pairwise different (as after \<^verbatim>\<open>reset\<close>), they
  still are after any sequence \<open>ops\<close> of calls of \<^verbatim>\<open>addToMap\<close>, and each call adds one
  entry. A single \<^verbatim>\<open>addToMap(i, it)\<close> commits \<open>it\<close> under \<open>i\<close> followed by \<open>k\<close> marker
  characters, where \<open>k\<close> is the least number for which that identifier is unused (so under
  \<open>i\<close> itself when it is unused); every other lookup is as before.
\<close>

theorem addToMap_unique:
  assumes "distinct (map fst (states_map s))"
  shows "distinct (map fst (states_map (fold (\<lambda>(i, it). addToMap i it) ops s)))
     \<and> length (states_map (fold (\<lambda>(i, it). addToMap i it) ops s))
         = length (states_map s) + length ops
     \<and> (\<exists>k. i @ replicate k CHR ''_'' \<notin> qmap_keys (states_map s)
           \<and> (\<forall>j<k. i @ replicate j CHR ''_'' \<in> qmap_keys (states_map s))
           \<and> idToItem (addToMap i it s) = (idToItem s)(i @ replicate k CHR ''_'' \<mapsto> it))"
proof -
  from addToMap_loop_char [of "states_map s" i] obtain k where k:
    "addToMap_loop (states_map s) i = i @ replicate k CHR ''_''"
    "\<not> contains (states_map s) (i @ replicate k CHR ''_'')"
    "\<forall>j<k. contains (states_map s) (i @ replicate j CHR ''_'')"
    by blast
  have "idToItem (addToMap i it s) = (idToItem s)(i @ replicate k CHR ''_'' \<mapsto> it)"
    by (simp add: idToItem_def qmap_value_def addToMap_def qmap_insert_def update_conv' k(1)
        fun_eq_iff)
  with k(2,3) inserts_distinct [OF assms] inserts_length show ?thesis
    unfolding contains_iff by blast
qed

theorem addToMap_unique_witness:
  "distinct (map fst (states_map (CyberiadaSMModel_new example_constants)))
   \<and> distinct (map fst (states_map
        (fold (\<lambda>(i, it). addToMap i it) [(''a'', 4), (''a'', 5)]
           (CyberiadaSMModel_new example_constants))))
   \<and> length (states_map
        (fold (\<lambda>(i, it). addToMap i it) [(''a'', 4), (''a'', 5)]
           (CyberiadaSMModel_new example_constants))) = 2"
proof -
  have h: "distinct (map fst (states_map (CyberiadaSMModel_new example_constants)))"
    by (simp add: CyberiadaSMModel_new_def initTrees_def)
  have l: "length (states_map (CyberiadaSMModel_new example_constants)) = 0"
    by (simp add: CyberiadaSMModel_new_def initTrees_def)
  show ?thesis
    using h l addToMap_unique [OF h, of "[(''a'', 4), (''a'', 5)]" "''a''" 4]
    by simp
qed

section \<open>Conversion of the document\<close>

subsection \<open>One call of convertNode and convertEdge\<close>

lemmas item_ctor_defs =
  blank_item_def CyberiadaInitialStateItem_def CyberiadaCommentItem_def CyberiadaStateItem_def
  CyberiadaTransitionItem_def

lemma convertNode_state:
  "node_type n \<noteq> cybNodeInitial \<Longrightarrow> node_type n \<noteq> cybNodeComment \<Longrightarrow>
   convertNode K rnd n p s =
     (case node_geometry_rect n of (x, y, w, h) \<Rightarrow>
        Some (length (heap s),
          s\<lparr>heap := heap s @ [CyberiadaStateItem (node_id n)
             (if node_title n = [] then CYBERIADA_EMPTY_NODE_TITLE K else node_title n)
             (trimmed (node_action n)) (StateGeometry (x, y) (w, h)) p]\<rparr>))"
  by (simp add: convertNode_def new_item_def split: prod.splits)

lemma convertNode_initial:
  "node_type n = cybNodeInitial \<Longrightarrow>
   convertNode K rnd n p s =
     (case node_geometry_rect n of (x, y, w, h) \<Rightarrow>
        Some (length (heap s),
          s\<lparr>heap := heap s @ [CyberiadaInitialStateItem (node_id n) (x, y) p]\<rparr>))"
  by (simp add: convertNode_def new_item_def split: prod.splits)

lemma convertNode_comment:
  "node_type n = cybNodeComment \<Longrightarrow> \<not> contains (states_map s) ''id-%d'' \<Longrightarrow>
   convertNode K rnd n p s =
     (case node_geometry_rect n of (x, y, w, h) \<Rightarrow>
        Some (length (heap s),
          s\<lparr>qrand_calls := Suc (qrand_calls s),
            heap := heap s @
              [CyberiadaCommentItem ''id-%d'' (node_action n) (StateGeometry (x, y) (w, h)) p]\<rparr>))"
  by (simp add: convertNode_def new_item_def generateID_def generateID_loop_fresh
      split: prod.splits)

lemma convertNode_comment_stuck:
  "node_type n = cybNodeComment \<Longrightarrow> contains (states_map s) ''id-%d'' \<Longrightarrow>
   convertNode K rnd n p s = None"
  by (simp add: convertNode_def generateID_def generateID_loop_stuck split: prod.splits)

lemma convertEdge_eval:
  "convertEdge edge s =
     (case (map_of (states_map s) (edge_source_id edge),
            map_of (states_map s) (edge_target_id edge)) of
        (Some src, Some tgt) \<Rightarrow>
          Some (length (heap s),
            s\<lparr>heap := heap s @ [CyberiadaTransitionItem src tgt (edge_id edge)
              (trimmed (edge_action edge))
              (TransitionGeometry (geometry_source_point edge) (geometry_target_point edge)
                 (geometry_polyline edge))]\<rparr>)
      | _ \<Rightarrow> None)"
  by (simp add: convertEdge_def qmap_value_def new_item_def split: option.splits)

subsection \<open>The store only grows\<close>

lemma grown_refl: "grown s s p []"
  by (simp add: grown_def)

lemma grown_trans: "grown s s1 p a \<Longrightarrow> grown s1 s2 p b \<Longrightarrow> grown s s2 p (a @ b)"
  unfolding grown_def by auto

lemma registered_frame:
  assumes "registered s h" "heap s' ! h = heap s ! h" "states_map s' = states_map s @ ext"
  shows "registered s' h"
  using assms unfolding registered_def idToItem_def qmap_value_def
  by (fastforce simp: map_add_Some_iff)

lemma builds_frame:
  assumes "builds b s owner hs ns"
    and "length (heap s) \<le> length (heap s')"
    and "\<forall>h. b \<le> h \<and> h < length (heap s) \<longrightarrow> heap s' ! h = heap s ! h"
    and "states_map s' = states_map s @ ext"
  shows "builds b s' owner hs ns"
  using assms
proof (induction b s owner hs ns rule: builds.induct)
  case (2 b s owner h hs t i ti a g cs ns)
  then show ?case by (auto intro: registered_frame)
qed simp_all

lemma builds_mono: "builds b s owner hs ns \<Longrightarrow> b' \<le> b \<Longrightarrow> builds b' s owner hs ns"
  by (induction b s owner hs ns rule: builds.induct) auto

lemma builds_append:
  "builds b s owner hs1 ns1 \<Longrightarrow> builds b s owner hs2 ns2 \<Longrightarrow>
   builds b s owner (hs1 @ hs2) (ns1 @ ns2)"
  by (induction b s owner hs1 ns1 rule: builds.induct) auto

lemma size_children:
  "size_list size (node_children n) < size_list size (n # ns)"
  "size_list size ns < size_list size (n # ns)"
  by (cases n; simp)+

lemma all_nodes_Cons: "all_nodes (n # ns) = n # all_nodes (node_children n) @ all_nodes ns"
  by (cases n) simp

lemma all_nodes_append: "all_nodes (xs @ ys) = all_nodes xs @ all_nodes ys"
  by (induction xs rule: all_nodes.induct) simp_all

lemma builds_Cons:
  "builds b s owner (h # hs) (n # ns) \<longleftrightarrow>
     b \<le> h \<and> h < length (heap s) \<and> item_for n owner (heap s ! h) \<and> registered s h
     \<and> builds b s h (item_children (heap s ! h)) (node_children n)
     \<and> builds b s owner hs ns"
  by (cases n) simp

text \<open>What \<^verbatim>\<open>convertNode\<close> does to the model when it returns.\<close>

lemma convertNode_Some:
  assumes "convertNode K rnd n p s = Some (item, s1)"
  shows "item = length (heap s)
     \<and> (\<exists>it. heap s1 = heap s @ [it] \<and> item_for n p it \<and> item_children it = []
           \<and> (node_type n = cybNodeComment \<longrightarrow>
                 item_id it = ''id-%d'' \<and> ''id-%d'' \<notin> qmap_keys (states_map s)))
     \<and> states_map s1 = states_map s
     \<and> root s1 = root s \<and> sm_root s1 = sm_root s
     \<and> states_root s1 = states_root s \<and> trans_root s1 = trans_root s"
proof (cases "node_type n = cybNodeComment")
  case True
  with assms obtain i sg where g: "generateID rnd s = Some (i, sg)"
    and r: "(item, s1) = new_item (CyberiadaCommentItem i (node_action n)
        (StateGeometry (fst (node_geometry_rect n), fst (snd (node_geometry_rect n)))
           (fst (snd (snd (node_geometry_rect n))), snd (snd (snd (node_geometry_rect n))))) p) sg"
    by (auto simp: convertNode_def split: prod.splits option.splits)
  from g obtain k where l: "generateID_loop rnd (states_map s) (qrand_calls s) = Some (i, k)"
    and sg: "sg = s\<lparr>qrand_calls := k\<rparr>"
    by (auto simp: generateID_def split: option.splits)
  from l have nk: "\<not> contains (states_map s) ''id-%d''" by (rule generateID_loop_Some)
  with l have i: "i = ''id-%d''" by (simp add: generateID_loop_fresh)
  from r sg i nk True show ?thesis
    by (simp add: new_item_def item_for_def item_ctor_defs contains_iff)
next
  case False
  with assms show ?thesis
    by (auto simp: convertNode_def new_item_def item_for_def item_ctor_defs Let_def
        split: prod.splits if_splits CyberiadaNodeType.splits)
qed

subsection \<open>The identifiers the index commits\<close>

lemma contains_keys: "map fst m = map fst m' \<Longrightarrow> contains m k = contains m' k"
  unfolding contains_iff qmap_keys_def by (metis list.set_map)

lemma addToMap_loop_keys:
  "map fst m = map fst m' \<Longrightarrow> addToMap_loop m i = addToMap_loop m' i"
proof (induction m i rule: addToMap_loop.induct)
  case (1 m new_id)
  from "1.prems" have c: "contains m new_id = contains m' new_id" by (rule contains_keys)
  show ?case
  proof (cases "contains m new_id")
    case True
    from "1.IH" [OF True "1.prems"] True c show ?thesis
      by (subst addToMap_loop.simps, subst (2) addToMap_loop.simps) simp
  next
    case False
    with c show ?thesis
      by (subst addToMap_loop.simps, subst (2) addToMap_loop.simps) simp
  qed
qed

lemma commit_keys: "commit (map fst m) i = addToMap_loop m i"
  unfolding commit_def by (rule addToMap_loop_keys) (simp add: comp_def)

lemma commit_fresh: "i \<notin> set ks \<Longrightarrow> commit ks i = i"
  unfolding commit_def
  by (subst addToMap_loop.simps) (simp add: contains_iff qmap_keys_def image_image)

lemma commit_unused: "commit ks i \<notin> set ks"
  using addToMap_loop_char [of "map (\<lambda>k. (k, ())) ks" i]
  by (auto simp: commit_def contains_iff qmap_keys_def image_image)

lemma length_committed_ids: "length (committed_ids ks ns) = length ns"
  by (induction ns arbitrary: ks) simp_all

lemma committed_ids_append:
  "committed_ids ks (xs @ ys) = committed_ids ks xs @ committed_ids (ks @ committed_ids ks xs) ys"
  by (induction xs arbitrary: ks) simp_all

lemma committed_ids_distinct:
  "distinct ks \<Longrightarrow> distinct (ks @ committed_ids ks ns)"
proof (induction ns arbitrary: ks)
  case (Cons n ns)
  have "distinct (ks @ [commit ks (key_id n)])"
    using Cons.prems commit_unused [of ks "key_id n"] by simp
  from Cons.IH [OF this] show ?case by simp
qed simp

subsection \<open>The items of a forest in document order\<close>

lemma built_Cons:
  "built s (h # hs) (n # ns) =
     h # built s (item_children (heap s ! h)) (node_children n) @ built s hs ns"
  by (cases n) simp

lemma built_length:
  "builds b s owner hs ns \<Longrightarrow> length (built s hs ns) = length (all_nodes ns)"
  by (induction b s owner hs ns rule: builds.induct) simp_all

lemma built_frame:
  assumes "builds b s owner hs ns"
    and "\<forall>h. b \<le> h \<and> h < length (heap s) \<longrightarrow> heap s' ! h = heap s ! h"
  shows "built s' hs ns = built s hs ns"
  using assms by (induction b s owner hs ns rule: builds.induct) simp_all

lemma built_append:
  "builds b s owner hs1 ns1 \<Longrightarrow>
   built s (hs1 @ hs2) (ns1 @ ns2) = built s hs1 ns1 @ built s hs2 ns2"
  by (induction b s owner hs1 ns1 rule: builds.induct) simp_all

lemma item_for_node_item: "item_for n owner it \<Longrightarrow> node_item n it"
  by (simp add: item_for_def node_item_def)

lemma built_items:
  "builds b s owner hs ns \<Longrightarrow>
   list_all2 (\<lambda>h n. h < length (heap s) \<and> node_item n (heap s ! h)) (built s hs ns) (all_nodes ns)"
proof (induction b s owner hs ns rule: builds.induct)
  case (2 b s owner h hs t i ti a g cs ns)
  then show ?case by (auto intro: list_all2_appendI item_for_node_item)
qed simp_all

subsection \<open>What addChildNodes builds\<close>

lemma addChildNodes_Cons_Some:
  assumes "addChildNodes K rnd (n # ns) p toplevel s = Some s'"
  obtains item s1 s2 where
    "convertNode K rnd n p s = Some (item, s1)"
    "(if toplevel then addChildNodes K rnd (node_children n) p False s1
      else addChildNodes K rnd (node_children n) item False
             (addChild p item (addToMap (getID s1 item) item s1))) = Some s2"
    "addChildNodes K rnd ns p toplevel s2 = Some s'"
  using assms by (auto split: option.splits)

lemma addToMap_commit:
  "addToMap i it s = s\<lparr>states_map := states_map s @ [(commit (map fst (states_map s)) i, it)]\<rparr>"
  using commit_unused [of "map fst (states_map s)" i]
  by (simp add: addToMap_def qmap_insert_def commit_keys AList_update_fresh)

lemma map_of_append_fresh:
  "k \<notin> fst ` set m \<Longrightarrow> map_of (m @ (k, v) # ext) k = Some v"
  by (simp add: map_add_Some_iff map_of_eq_None_iff)

text \<open>
  A call of \<^verbatim>\<open>addChildNodes\<close> that returns has allocated one item per node it has
  visited, has appended to \<open>p\<close> the items of its forest and has changed no other item
  that was there; the items are the conversion of the forest, and the identifier of every
  node of the forest that is not a comment is in the index. The index has gained one entry
  per node of the forest, in document order: the identifier committed for the node, with
  the item of that node.
\<close>

lemma addChildNodes_builds:
  assumes "addChildNodes K rnd nodes p toplevel s = Some s'" and "p < length (heap s)"
  shows "\<exists>new. grown s s' p new
     \<and> length (heap s') = length (heap s) + length (all_nodes nodes)
     \<and> builds (length (heap s)) s' p new (forest_of toplevel nodes)
     \<and> (\<forall>n\<in>set (all_nodes (forest_of toplevel nodes)).
           node_type n \<noteq> cybNodeComment \<longrightarrow> node_id n \<in> qmap_keys (states_map s'))
     \<and> states_map s' = states_map s @
          zip (committed_ids (map fst (states_map s)) (all_nodes (forest_of toplevel nodes)))
            (built s' new (forest_of toplevel nodes))"
  using assms
proof (induction "size_list size nodes" arbitrary: nodes p toplevel s s' rule: less_induct)
  case less
  show ?case
  proof (cases nodes)
    case Nil
    with less.prems show ?thesis
      by (auto simp: grown_refl forest_of_def intro!: exI [of _ "[]"])
  next
    case (Cons n ns)
    let ?b = "length (heap s)"
    from less.prems(1) [unfolded Cons] obtain item s1 s2 where
      conv: "convertNode K rnd n p s = Some (item, s1)"
      and kids: "(if toplevel then addChildNodes K rnd (node_children n) p False s1
        else addChildNodes K rnd (node_children n) item False
               (addChild p item (addToMap (getID s1 item) item s1))) = Some s2"
      and rest: "addChildNodes K rnd ns p toplevel s2 = Some s'"
      by (rule addChildNodes_Cons_Some)
    from convertNode_Some [OF conv] obtain it where
      item: "item = ?b" and h1: "heap s1 = heap s @ [it]" and itfor: "item_for n p it"
      and itkids: "item_children it = []"
      and m1: "states_map s1 = states_map s"
      and r1: "root s1 = root s" "sm_root s1 = sm_root s"
        "states_root s1 = states_root s" "trans_root s1 = trans_root s"
      and cid: "node_type n = cybNodeComment \<longrightarrow> item_id it = ''id-%d''"
      by blast
    have sz: "size_list size (node_children n) < size_list size nodes"
      "size_list size ns < size_list size nodes"
      unfolding Cons by (rule size_children)+
    have p: "p < ?b" by (rule less.prems(2))
    show ?thesis
    proof (cases toplevel)
      case True
      with kids have k: "addChildNodes K rnd (node_children n) p False s1 = Some s2" by simp
      have g01: "grown s s1 p []"
        using p by (simp add: grown_def h1 m1 r1 nth_append)
      from less.hyps [OF sz(1) k] p h1 obtain new1 where
        g12: "grown s1 s2 p new1"
        and l2: "length (heap s2) = length (heap s1) + length (all_nodes (node_children n))"
        and b12: "builds (length (heap s1)) s2 p new1 (node_children n)"
        and k12: "\<forall>m\<in>set (all_nodes (node_children n)).
           node_type m \<noteq> cybNodeComment \<longrightarrow> node_id m \<in> qmap_keys (states_map s2)"
        and i12: "states_map s2 = states_map s1 @
           zip (committed_ids (map fst (states_map s1)) (all_nodes (node_children n)))
             (built s2 new1 (node_children n))"
        by (auto simp: forest_of_def)
      have p2: "p < length (heap s2)" using p l2 h1 by simp
      from less.hyps [OF sz(2) rest p2] True obtain new2 where
        g23: "grown s2 s' p new2"
        and l3: "length (heap s') = length (heap s2) + length (all_nodes ns)"
        and b23: "builds (length (heap s2)) s' p new2 (concat (map node_children ns))"
        and k23: "\<forall>m\<in>set (all_nodes (concat (map node_children ns))).
           node_type m \<noteq> cybNodeComment \<longrightarrow> node_id m \<in> qmap_keys (states_map s')"
        and i23: "states_map s' = states_map s2 @
           zip (committed_ids (map fst (states_map s2)) (all_nodes (concat (map node_children ns))))
             (built s' new2 (concat (map node_children ns)))"
        by (auto simp: forest_of_def)
      from g23 obtain ext where ext: "states_map s' = states_map s2 @ ext"
        by (auto simp: grown_def)
      have g: "grown s s' p (new1 @ new2)"
        using grown_trans [OF grown_trans [OF g01 g12] g23] by simp
      have fr: "\<forall>h. length (heap s1) \<le> h \<and> h < length (heap s2) \<longrightarrow> heap s' ! h = heap s2 ! h"
        using g23 p h1 by (auto simp: grown_def)
      have "builds (length (heap s1)) s' p new1 (node_children n)"
      proof (rule builds_frame [OF b12 _ fr ext])
        show "length (heap s2) \<le> length (heap s')" using l3 by simp
      qed
      then have b1: "builds ?b s' p new1 (node_children n)"
        by (rule builds_mono) (simp add: h1)
      have b2: "builds ?b s' p new2 (concat (map node_children ns))"
        by (rule builds_mono [OF b23]) (simp add: l2 h1)
      have keys: "\<forall>m\<in>set (all_nodes (node_children n)).
           node_type m \<noteq> cybNodeComment \<longrightarrow> node_id m \<in> qmap_keys (states_map s')"
        using k12 ext by (auto simp: qmap_keys_def)
      define ks where "ks = map fst (states_map s)"
      define A where "A = all_nodes (node_children n)"
      define B where "B = all_nodes (concat (map node_children ns))"
      have bf1: "built s' new1 (node_children n) = built s2 new1 (node_children n)"
        by (rule built_frame [OF b12 fr])
      have len1: "length (built s2 new1 (node_children n)) = length A"
        unfolding A_def by (rule built_length [OF b12])
      have keys2: "map fst (states_map s2) = ks @ committed_ids ks A"
        by (subst i12) (simp add: m1 ks_def A_def [symmetric] len1 length_committed_ids)
      have "states_map s' = states_map s @ zip (committed_ids ks A) (built s' new1 (node_children n))
          @ zip (committed_ids (ks @ committed_ids ks A) B)
              (built s' new2 (concat (map node_children ns)))"
        by (subst i23, subst i12)
          (simp add: keys2 m1 ks_def [symmetric] A_def [symmetric] B_def [symmetric] bf1)
      also have "zip (committed_ids ks A) (built s' new1 (node_children n))
          @ zip (committed_ids (ks @ committed_ids ks A) B)
              (built s' new2 (concat (map node_children ns)))
          = zip (committed_ids ks (A @ B))
              (built s' (new1 @ new2) (node_children n @ concat (map node_children ns)))"
        by (simp add: committed_ids_append built_append [OF b1] bf1 len1 length_committed_ids)
      finally have idx: "states_map s' = states_map s @
          zip (committed_ids (map fst (states_map s)) (all_nodes (forest_of toplevel nodes)))
            (built s' (new1 @ new2) (forest_of toplevel nodes))"
        using True by (simp add: Cons forest_of_def all_nodes_append ks_def A_def B_def)
      show ?thesis
      proof (intro exI [of _ "new1 @ new2"] conjI)
        show "states_map s' = states_map s @
            zip (committed_ids (map fst (states_map s)) (all_nodes (forest_of toplevel nodes)))
              (built s' (new1 @ new2) (forest_of toplevel nodes))"
          by (rule idx)
      qed (use g l3 l2 h1 builds_append [OF b1 b2] keys k23 True in
          \<open>auto simp: Cons forest_of_def all_nodes_Cons all_nodes_append\<close>)
    next
      case False
      define sA where "sA = addToMap (getID s1 item) item s1"
      define sB where "sB = addChild p item sA"
      from False kids have k: "addChildNodes K rnd (node_children n) item False sB = Some s2"
        by (simp add: sB_def sA_def)
      have gid: "getID s1 item = item_id it" by (simp add: getID_def h1 item)
      from addToMap_committed [of "item_id it" s1 item] obtain j where
        j: "item_id it @ replicate j CHR ''_'' \<notin> qmap_keys (states_map s)"
        "\<forall>j'<j. item_id it @ replicate j' CHR ''_'' \<in> qmap_keys (states_map s)"
        and sA: "sA = s1\<lparr>states_map := states_map s @ [(item_id it @ replicate j CHR ''_'', item)]\<rparr>"
        unfolding gid m1 sA_def by blast
      let ?key = "item_id it @ replicate j CHR ''_''"
      have hB: "heap sB = (heap s @ [it])[p := (heap s ! p)\<lparr>item_children := item_children (heap s ! p) @ [item]\<rparr>]"
        using p by (simp add: sB_def addChild_def sA h1 nth_append)
      have mB: "states_map sB = states_map s @ [(?key, item)]"
        by (simp add: sB_def addChild_def sA)
      have rB: "root sB = root s" "sm_root sB = sm_root s"
        "states_root sB = states_root s" "trans_root sB = trans_root s"
        by (simp_all add: sB_def addChild_def sA r1)
      have lB: "length (heap sB) = Suc ?b" by (simp add: hB)
      have itB: "heap sB ! item = it"
        unfolding hB using p by (simp add: item nth_list_update nth_append)
      have idkey: "item_id it \<in> qmap_keys (states_map sB)"
      proof (cases j)
        case 0
        then show ?thesis by (simp add: mB qmap_keys_def)
      next
        case (Suc j')
        with j(2) have "item_id it @ replicate 0 CHR ''_'' \<in> qmap_keys (states_map s)" by blast
        then show ?thesis by (simp add: mB qmap_keys_def)
      qed
      have iB: "item < length (heap sB)" by (simp add: lB item)
      from less.hyps [OF sz(1) k iB] obtain new1 where
        g12: "grown sB s2 item new1"
        and l2: "length (heap s2) = length (heap sB) + length (all_nodes (node_children n))"
        and b12: "builds (length (heap sB)) s2 item new1 (node_children n)"
        and k12: "\<forall>m\<in>set (all_nodes (node_children n)).
           node_type m \<noteq> cybNodeComment \<longrightarrow> node_id m \<in> qmap_keys (states_map s2)"
        and i12: "states_map s2 = states_map sB @
           zip (committed_ids (map fst (states_map sB)) (all_nodes (node_children n)))
             (built s2 new1 (node_children n))"
        by (auto simp: forest_of_def)
      have p2: "p < length (heap s2)" using p l2 lB by simp
      from less.hyps [OF sz(2) rest p2] False obtain new2 where
        g23: "grown s2 s' p new2"
        and l3: "length (heap s') = length (heap s2) + length (all_nodes ns)"
        and b23: "builds (length (heap s2)) s' p new2 ns"
        and k23: "\<forall>m\<in>set (all_nodes ns).
           node_type m \<noteq> cybNodeComment \<longrightarrow> node_id m \<in> qmap_keys (states_map s')"
        and i23: "states_map s' = states_map s2 @
           zip (committed_ids (map fst (states_map s2)) (all_nodes ns)) (built s' new2 ns)"
        by (auto simp: forest_of_def)
      from g12 obtain ext1 where ext1: "states_map s2 = states_map sB @ ext1"
        by (auto simp: grown_def)
      from g23 obtain ext2 where ext2: "states_map s' = states_map s2 @ ext2"
        by (auto simp: grown_def)
      have pne: "p \<noteq> item" using p item by simp
      have it2: "heap s2 ! item = it\<lparr>item_children := new1\<rparr>"
        using g12 itB itkids by (simp add: grown_def)
      have it3: "heap s' ! item = it\<lparr>item_children := new1\<rparr>"
        using g23 it2 pne l2 lB item by (simp add: grown_def)
      have p2eq: "heap s2 ! p = (heap s ! p)\<lparr>item_children := item_children (heap s ! p) @ [item]\<rparr>"
        using g12 pne p lB hB by (simp add: grown_def nth_list_update)
      have g: "grown s s' p (item # new2)"
        unfolding grown_def
      proof (intro conjI allI impI)
        show "length (heap s) \<le> length (heap s')" using l3 l2 lB by simp
        show "heap s' ! p = (heap s ! p)\<lparr>item_children := item_children (heap s ! p) @ item # new2\<rparr>"
          using g23 p2eq by (simp add: grown_def)
        show "\<exists>ext. states_map s' = states_map s @ ext"
          using ext2 ext1 mB by simp
        show "root s' = root s" "sm_root s' = sm_root s"
          "states_root s' = states_root s" "trans_root s' = trans_root s"
          using g23 g12 rB by (simp_all add: grown_def)
      next
        fix h assume h: "h < length (heap s)" "h \<noteq> p"
        then have "heap s' ! h = heap s2 ! h" using g23 l2 lB by (simp add: grown_def)
        also have "\<dots> = heap sB ! h" using g12 h lB item by (simp add: grown_def)
        also have "\<dots> = heap s ! h" using h by (simp add: hB nth_list_update nth_append)
        finally show "heap s' ! h = heap s ! h" .
      qed
      have reg: "registered s' item"
        unfolding registered_def
      proof (rule bexI [of _ "(?key, item)"])
        have e: "states_map s' = states_map s @ (?key, item) # (ext1 @ ext2)"
          by (simp add: ext2 ext1 mB)
        have "?key \<notin> fst ` set (states_map s)"
          using j(1) by (simp add: qmap_keys_def)
        then have "map_of (states_map s') ?key = Some item"
          unfolding e by (rule map_of_append_fresh)
        moreover have "\<exists>j'\<le>length ?key. ?key = item_id (heap s' ! item) @ replicate j' CHR ''_''"
          by (rule exI [of _ j]) (simp add: it3)
        ultimately show "case (?key, item) of (k, v) \<Rightarrow>
             v = item \<and> idToItem s' k = Some item
             \<and> (\<exists>j\<le>length k. k = item_id (heap s' ! item) @ replicate j CHR ''_'')"
          by (simp add: idToItem_def qmap_value_def)
        show "(?key, item) \<in> set (states_map s')" by (simp add: ext2 ext1 mB)
      qed
      have fr: "\<forall>h. length (heap sB) \<le> h \<and> h < length (heap s2) \<longrightarrow> heap s' ! h = heap s2 ! h"
        using g23 p lB by (auto simp: grown_def)
      have "builds (length (heap sB)) s' item new1 (node_children n)"
      proof (rule builds_frame [OF b12 _ fr ext2])
        show "length (heap s2) \<le> length (heap s')" using l3 by simp
      qed
      then have b1: "builds ?b s' item new1 (node_children n)"
        by (rule builds_mono) (simp add: lB)
      have b2: "builds ?b s' p new2 ns"
        by (rule builds_mono [OF b23]) (simp add: l2 lB)
      have bl: "builds ?b s' p (item # new2) (n # ns)"
        unfolding builds_Cons
        using b1 b2 reg itfor it3 l3 l2 lB item
        by (simp add: item_for_def)
      have keyn: "node_type n \<noteq> cybNodeComment \<longrightarrow> node_id n \<in> qmap_keys (states_map s')"
        using idkey itfor ext1 ext2 by (force simp: item_for_def qmap_keys_def)
      have keys: "\<forall>m\<in>set (all_nodes (node_children n)).
           node_type m \<noteq> cybNodeComment \<longrightarrow> node_id m \<in> qmap_keys (states_map s')"
        using k12 ext2 by (auto simp: qmap_keys_def)
      define ks where "ks = map fst (states_map s)"
      define c where "c = commit ks (key_id n)"
      define A where "A = all_nodes (node_children n)"
      define B where "B = all_nodes ns"
      have "item_id it = key_id n"
        using itfor cid by (auto simp: item_for_def key_id_def)
      then have "states_map sA = states_map s @ [(c, item)]"
        unfolding sA_def gid c_def ks_def by (simp add: addToMap_commit m1)
      then have mB': "states_map sB = states_map s @ [(c, item)]"
        by (simp add: sB_def addChild_def)
      have bf1: "built s' new1 (node_children n) = built s2 new1 (node_children n)"
        by (rule built_frame [OF b12 fr])
      have len1: "length (built s2 new1 (node_children n)) = length A"
        unfolding A_def by (rule built_length [OF b12])
      have keys2: "map fst (states_map s2) = (ks @ [c]) @ committed_ids (ks @ [c]) A"
        by (subst i12) (simp add: mB' ks_def A_def [symmetric] len1 length_committed_ids)
      have "states_map s' = states_map s @ (c, item) #
          zip (committed_ids (ks @ [c]) A) (built s' new1 (node_children n))
          @ zip (committed_ids ((ks @ [c]) @ committed_ids (ks @ [c]) A) B) (built s' new2 ns)"
        by (subst i23, subst i12)
          (simp add: keys2 mB' ks_def [symmetric] A_def [symmetric] B_def [symmetric] bf1)
      also have "(c, item) #
          zip (committed_ids (ks @ [c]) A) (built s' new1 (node_children n))
          @ zip (committed_ids ((ks @ [c]) @ committed_ids (ks @ [c]) A) B) (built s' new2 ns)
          = zip (committed_ids ks (n # A @ B)) (built s' (item # new2) (n # ns))"
        by (simp add: committed_ids_append built_Cons it3 bf1 len1 length_committed_ids c_def)
      finally have idx: "states_map s' = states_map s @
          zip (committed_ids (map fst (states_map s)) (all_nodes (forest_of toplevel nodes)))
            (built s' (item # new2) (forest_of toplevel nodes))"
        using False by (simp add: Cons forest_of_def all_nodes_Cons ks_def A_def B_def)
      show ?thesis
      proof (intro exI [of _ "item # new2"] conjI)
        show "states_map s' = states_map s @
            zip (committed_ids (map fst (states_map s)) (all_nodes (forest_of toplevel nodes)))
              (built s' (item # new2) (forest_of toplevel nodes))"
          by (rule idx)
      qed (use g l3 l2 lB bl keyn keys k23 False in
          \<open>auto simp: Cons forest_of_def all_nodes_Cons\<close>)
    qed
  qed
qed

subsection \<open>When addChildNodes returns\<close>

text \<open>
  \<^verbatim>\<open>generateID\<close> is called once for each comment, and returns if the index does not
  hold \<open>id-%d\<close> by then. The index comes to hold it with the first comment registered,
  or with a registered node named \<open>id-%d\<close>; no other node identifier can bring it about.
\<close>

lemma variant_not_id: "i \<noteq> ''id-%d'' \<Longrightarrow> i @ replicate j CHR ''_'' \<noteq> ''id-%d''"
proof (cases j)
  case 0
  assume "i \<noteq> ''id-%d''"
  with 0 show ?thesis by simp
next
  case (Suc j')
  show ?thesis
  proof
    assume "i @ replicate j CHR ''_'' = ''id-%d''"
    then have "last (i @ replicate j CHR ''_'') = last ''id-%d''" by (rule arg_cong)
    moreover have "j \<noteq> 0" using Suc by simp
    ultimately show False by (simp add: last_replicate)
  qed
qed

lemma convertNode_returns:
  "node_type n \<noteq> cybNodeComment \<or> ''id-%d'' \<notin> qmap_keys (states_map s) \<Longrightarrow>
   \<exists>item s1. convertNode K rnd n p s = Some (item, s1)"
  by (auto simp: convertNode_def generateID_def generateID_loop_fresh contains_iff new_item_def
      Let_def split: prod.splits)

lemma visit_Cons:
  "visit toplevel (n # ns) = (\<not> toplevel, n) # visit False (node_children n) @ visit toplevel ns"
  by (cases n) simp

lemma generate_ok_append:
  "generate_ok held (xs @ ys) \<longleftrightarrow>
     generate_ok held xs \<and> generate_ok (held \<or> list_ex occupies xs) ys"
  by (induction xs arbitrary: held) (simp_all add: disj_assoc)

text \<open>
  \<open>held\<close> bounds from above what the index holds: if the index holds \<open>id-%d\<close> then
  \<open>held\<close>. Under the condition on the order of the nodes the call returns, and the bound
  goes on to the state it returns.
\<close>

lemma addChildNodes_returns:
  assumes "generate_ok held (visit toplevel nodes)" and "\<not> fresh s \<longrightarrow> held"
  shows "\<exists>s'. addChildNodes K rnd nodes p toplevel s = Some s'
     \<and> (\<not> fresh s' \<longrightarrow> held \<or> list_ex occupies (visit toplevel nodes))"
  using assms
proof (induction "size_list size nodes" arbitrary: nodes p toplevel s held rule: less_induct)
  case less
  show ?case
  proof (cases nodes)
    case Nil
    with less.prems show ?thesis by simp
  next
    case (Cons n ns)
    have sz: "size_list size (node_children n) < size_list size nodes"
      "size_list size ns < size_list size nodes"
      unfolding Cons by (rule size_children)+
    define held1 where "held1 \<longleftrightarrow> held \<or> occupies (\<not> toplevel, n)"
    define held2 where "held2 \<longleftrightarrow> held1 \<or> list_ex occupies (visit False (node_children n))"
    from less.prems(1) have G0: "node_type n = cybNodeComment \<longrightarrow> \<not> held"
      and G1: "generate_ok held1 (visit False (node_children n))"
      and G2: "generate_ok held2 (visit toplevel ns)"
      by (simp_all add: Cons visit_Cons generate_ok_append held1_def held2_def)
    from G0 less.prems(2) have "node_type n \<noteq> cybNodeComment \<or> fresh s" by blast
    then have "node_type n \<noteq> cybNodeComment \<or> ''id-%d'' \<notin> qmap_keys (states_map s)"
      unfolding fresh_def .
    from convertNode_returns [OF this] obtain item s1 where
      conv: "convertNode K rnd n p s = Some (item, s1)" by blast
    from convertNode_Some [OF conv] obtain it where
      item: "item = length (heap s)" and h1: "heap s1 = heap s @ [it]" and itfor: "item_for n p it"
      and m1: "states_map s1 = states_map s"
      by blast
    define sA where "sA = addToMap (getID s1 item) item s1"
    define sB where "sB = addChild p item sA"
    define s1' where "s1' = (if toplevel then s1 else sB)"
    define p' where "p' = (if toplevel then p else item)"
    have gid: "getID s1 item = item_id it" by (simp add: getID_def h1 item)
    from addToMap_committed [of "item_id it" s1 item] obtain j where
      mB: "states_map sB = states_map s @ [(item_id it @ replicate j CHR ''_'', item)]"
      unfolding sB_def sA_def gid m1 by (auto simp: addChild_def)
    have fr1: "\<not> fresh s1' \<longrightarrow> held1"
    proof (cases toplevel)
      case True
      with less.prems(2) show ?thesis by (simp add: s1'_def fresh_def m1 held1_def)
    next
      case False
      show ?thesis
      proof
        assume "\<not> fresh s1'"
        with False have "\<not> fresh s \<or> item_id it @ replicate j CHR ''_'' = ''id-%d''"
          by (auto simp: s1'_def fresh_def mB qmap_keys_def)
        then show held1
        proof
          assume "\<not> fresh s"
          with less.prems(2) show ?thesis by (simp add: held1_def)
        next
          assume "item_id it @ replicate j CHR ''_'' = ''id-%d''"
          with variant_not_id [of "item_id it" j] have "item_id it = ''id-%d''" by blast
          with itfor have "node_type n = cybNodeComment \<or> node_id n = ''id-%d''"
            by (auto simp: item_for_def)
          with False show ?thesis by (simp add: held1_def occupies_def)
        qed
      qed
    qed
    from less.hyps [OF sz(1) G1 fr1, of p'] obtain s2 where
      k: "addChildNodes K rnd (node_children n) p' False s1' = Some s2"
      and f2: "\<not> fresh s2 \<longrightarrow> held2"
      unfolding held2_def by blast
    from less.hyps [OF sz(2) G2 f2, of p] obtain s' where
      r: "addChildNodes K rnd ns p toplevel s2 = Some s'"
      and f3: "\<not> fresh s' \<longrightarrow> held2 \<or> list_ex occupies (visit toplevel ns)"
      by blast
    have "addChildNodes K rnd nodes p toplevel s = Some s'"
      using conv k r by (cases toplevel) (simp_all add: Cons s1'_def p'_def sB_def sA_def)
    moreover have "\<not> fresh s' \<longrightarrow> held \<or> list_ex occupies (visit toplevel nodes)"
      using f3 by (auto simp: Cons visit_Cons held2_def held1_def)
    ultimately show ?thesis by blast
  qed
qed

text \<open>
  The condition is also necessary. The index of the state a call returns holds \<open>id-%d\<close>
  if it held it before, or if a node the call has registered is a comment or is named
  \<open>id-%d\<close>; and a call on nodes that do not meet the condition does not return.
\<close>

lemma committed_ids_holds: "n \<in> set ns \<Longrightarrow> key_id n \<in> set (ks @ committed_ids ks ns)"
proof (induction ns arbitrary: ks)
  case (Cons m ns)
  show ?case
  proof (cases "n = m")
    case True
    show ?thesis
    proof (cases "key_id m \<in> set ks")
      case False
      then have "commit ks (key_id m) = key_id m" by (rule commit_fresh)
      with True show ?thesis by simp
    qed (simp add: True)
  next
    case False
    with Cons.prems have "n \<in> set ns" by simp
    from Cons.IH [OF this, of "ks @ [commit ks (key_id m)]"] show ?thesis by simp
  qed
qed simp

lemma occupies_visit:
  "list_ex occupies (visit toplevel nodes) \<longleftrightarrow>
     (\<exists>n\<in>set (all_nodes (forest_of toplevel nodes)). key_id n = ''id-%d'')"
proof (induction toplevel nodes rule: visit.induct)
  case (2 toplevel t i ti a g cs ns)
  then show ?case
    by (cases toplevel) (auto simp: forest_of_def all_nodes_append occupies_def key_id_def)
qed (simp add: forest_of_def)

lemma addChildNodes_holds:
  assumes "addChildNodes K rnd nodes p toplevel s = Some s'" and "p < length (heap s)"
    and "\<not> fresh s \<or> list_ex occupies (visit toplevel nodes)"
  shows "\<not> fresh s'"
proof -
  define F where "F = forest_of toplevel nodes"
  define ks where "ks = map fst (states_map s)"
  from addChildNodes_builds [OF assms(1,2)] obtain new where
    b: "builds (length (heap s)) s' p new F"
    and i: "states_map s' = states_map s @ zip (committed_ids ks (all_nodes F)) (built s' new F)"
    unfolding F_def ks_def by blast
  have "length (built s' new F) = length (all_nodes F)" by (rule built_length [OF b])
  then have k: "map fst (states_map s') = ks @ committed_ids ks (all_nodes F)"
    by (subst i) (simp add: ks_def length_committed_ids)
  from assms(3) have "''id-%d'' \<in> set (ks @ committed_ids ks (all_nodes F))"
  proof
    assume "\<not> fresh s"
    then show ?thesis by (simp add: fresh_def qmap_keys_def ks_def)
  next
    assume "list_ex occupies (visit toplevel nodes)"
    then obtain n where "n \<in> set (all_nodes F)" "key_id n = ''id-%d''"
      unfolding occupies_visit F_def by blast
    with committed_ids_holds [of n "all_nodes F" ks] show ?thesis by simp
  qed
  then have "''id-%d'' \<in> set (map fst (states_map s'))" unfolding k .
  then show ?thesis by (simp add: fresh_def qmap_keys_def)
qed

lemma addChildNodes_stuck:
  assumes "\<not> generate_ok held (visit toplevel nodes)" and "held \<longrightarrow> \<not> fresh s"
    and "p < length (heap s)"
  shows "addChildNodes K rnd nodes p toplevel s = None"
  using assms
proof (induction "size_list size nodes" arbitrary: nodes p toplevel s held rule: less_induct)
  case less
  show ?case
  proof (cases nodes)
    case Nil
    with less.prems show ?thesis by simp
  next
    case (Cons n ns)
    have sz: "size_list size (node_children n) < size_list size nodes"
      "size_list size ns < size_list size nodes"
      unfolding Cons by (rule size_children)+
    define held1 where "held1 \<longleftrightarrow> held \<or> occupies (\<not> toplevel, n)"
    define held2 where "held2 \<longleftrightarrow> held1 \<or> list_ex occupies (visit False (node_children n))"
    from less.prems(1) have G: "(node_type n = cybNodeComment \<and> held)
        \<or> \<not> generate_ok held1 (visit False (node_children n))
        \<or> \<not> generate_ok held2 (visit toplevel ns)"
      by (auto simp: Cons visit_Cons generate_ok_append held1_def held2_def)
    show ?thesis
    proof (cases "convertNode K rnd n p s")
      case None
      then show ?thesis by (simp add: Cons)
    next
      case (Some r)
      obtain item s1 where r: "r = (item, s1)" by (cases r)
      note conv = Some [unfolded r]
      from convertNode_Some [OF conv] obtain it where
        item: "item = length (heap s)" and h1: "heap s1 = heap s @ [it]"
        and itfor: "item_for n p it"
        and m1: "states_map s1 = states_map s"
        and cid: "node_type n = cybNodeComment \<longrightarrow>
          item_id it = ''id-%d'' \<and> ''id-%d'' \<notin> qmap_keys (states_map s)"
        by blast
      define sA where "sA = addToMap (getID s1 item) item s1"
      define sB where "sB = addChild p item sA"
      define s1' where "s1' = (if toplevel then s1 else sB)"
      define p' where "p' = (if toplevel then p else item)"
      have gid: "getID s1 item = item_id it" by (simp add: getID_def h1 item)
      have kid: "item_id it = key_id n"
        using itfor cid by (auto simp: item_for_def key_id_def)
      have mB: "states_map sB =
          states_map s @ [(commit (map fst (states_map s)) (key_id n), item)]"
        unfolding sB_def sA_def gid kid by (simp add: addChild_def addToMap_commit m1)
      have hB: "length (heap sB) = Suc (length (heap s))"
        by (simp add: sB_def sA_def addChild_def addToMap_commit h1)
      have p1: "p' < length (heap s1')"
        using less.prems(3) by (simp add: p'_def s1'_def h1 hB item)
      have l1: "length (heap s) \<le> length (heap s1')"
        by (simp add: s1'_def h1 hB)
      have nc: "\<not> (node_type n = cybNodeComment \<and> held)"
        using cid less.prems(2) by (auto simp: fresh_def)
      have fr1: "held1 \<longrightarrow> \<not> fresh s1'"
      proof (cases toplevel)
        case True
        with less.prems(2) show ?thesis
          by (simp add: s1'_def fresh_def m1 held1_def occupies_def)
      next
        case False
        show ?thesis
        proof
          assume held1
          then have "\<not> fresh s \<or> key_id n = ''id-%d''"
            using less.prems(2) False by (auto simp: held1_def occupies_def key_id_def)
          then have "''id-%d'' \<in> qmap_keys (states_map sB)"
          proof
            assume "\<not> fresh s"
            then show ?thesis by (simp add: fresh_def mB qmap_keys_def)
          next
            assume k: "key_id n = ''id-%d''"
            show ?thesis
            proof (cases "''id-%d'' \<in> set (map fst (states_map s))")
              case True
              then show ?thesis by (simp add: mB qmap_keys_def)
            next
              case False
              then have "commit (map fst (states_map s)) (key_id n) = ''id-%d''"
                unfolding k by (rule commit_fresh)
              then show ?thesis by (simp add: mB qmap_keys_def)
            qed
          qed
          with False show "\<not> fresh s1'" by (simp add: s1'_def fresh_def)
        qed
      qed
      have step: "addChildNodes K rnd nodes p toplevel s =
          (case addChildNodes K rnd (node_children n) p' False s1' of
             None \<Rightarrow> None
           | Some s2 \<Rightarrow> addChildNodes K rnd ns p toplevel s2)"
        using conv
        by (cases toplevel) (simp_all add: Cons s1'_def p'_def sB_def sA_def split: option.splits)
      show ?thesis
      proof (cases "addChildNodes K rnd (node_children n) p' False s1'")
        case None
        then show ?thesis by (simp add: step)
      next
        case (Some s2)
        have g1: "generate_ok held1 (visit False (node_children n))"
        proof (rule ccontr)
          assume "\<not> generate_ok held1 (visit False (node_children n))"
          from less.hyps [OF sz(1) this fr1 p1] Some show False by simp
        qed
        with G nc have g2: "\<not> generate_ok held2 (visit toplevel ns)" by blast
        have f2: "held2 \<longrightarrow> \<not> fresh s2"
        proof
          assume held2
          with fr1 have "\<not> fresh s1' \<or> list_ex occupies (visit False (node_children n))"
            by (auto simp: held2_def)
          from addChildNodes_holds [OF Some p1 this] show "\<not> fresh s2" .
        qed
        from addChildNodes_builds [OF Some p1] have "length (heap s1') \<le> length (heap s2)"
          by auto
        with l1 less.prems(3) have p2: "p < length (heap s2)" by simp
        from less.hyps [OF sz(2) g2 f2 p2] show ?thesis by (simp add: step Some)
      qed
    qed
  qed
qed

subsection \<open>The items below an item\<close>

lemma forest_height_le: "forest_height ns \<le> length (all_nodes ns)"
  by (induction ns rule: forest_height.induct) auto

lemma builds_Nil: "builds b s owner hs [] \<Longrightarrow> hs = []"
  by (cases hs) simp_all

text \<open>
  The walk down the child sequences lists the items a forest has been converted into, in
  document order.
\<close>

lemma items_below_built:
  assumes "builds b s owner hs ns" and "forest_height ns \<le> Suc f"
  shows "concat (map (\<lambda>c. c # items_below f s c) hs) = built s hs ns"
  using assms
proof (induction b s owner hs ns arbitrary: f rule: builds.induct)
  case (2 b s owner h hs t i ti a g cs ns)
  from "2.prems" have bh: "builds b s h (item_children (heap s ! h)) cs"
    and bt: "builds b s owner hs ns"
    and hc: "forest_height cs \<le> f" and ht: "forest_height ns \<le> Suc f"
    by auto
  have below: "items_below f s h = built s (item_children (heap s ! h)) cs"
  proof (cases f)
    case 0
    with hc have "cs = []" by (cases cs rule: forest_height.cases) simp_all
    with bh builds_Nil 0 show ?thesis by fastforce
  next
    case (Suc f')
    with hc have "forest_height cs \<le> Suc f'" by simp
    from "2.IH"(1) [OF bh this] show ?thesis by (simp add: Suc)
  qed
  from "2.IH"(2) [OF bt ht] below show ?case by simp
qed simp_all

text \<open>
  An identifier that is the identifier of a node below the top level and the one the node
  is registered under looks up, in an index made of the registered identifiers and a list
  of items, to the item at the node's place.
\<close>

lemma own_id_registered_lookup:
  assumes "own_id_registered nodes x" and "length H = length (below_top nodes)"
  shows "\<exists>a<length (below_top nodes).
      node_id (below_top nodes ! a) = x \<and> registered_ids nodes ! a = x
      \<and> map_of (zip (registered_ids nodes) H) x = Some (H ! a)"
proof -
  have l: "length (registered_ids nodes) = length (below_top nodes)"
    by (simp add: registered_ids_def length_committed_ids)
  from assms(1) obtain a where a: "a < length (below_top nodes)"
    and x: "registered_ids nodes ! a = x" "node_id (below_top nodes ! a) = x"
    unfolding own_id_registered_def list_ex_iff by (auto simp: in_set_zip)
  have "distinct (registered_ids nodes)"
    using committed_ids_distinct [of "[]" "below_top nodes"] by (simp add: registered_ids_def)
  with l assms(2) a have "map_of (zip (registered_ids nodes) H) (registered_ids nodes ! a)
      = Some (H ! a)"
    by (intro map_of_zip_nth) simp_all
  with a x show ?thesis by blast
qed

subsection \<open>The loop over the edges\<close>

lemma convertEdge_Some:
  assumes "resolves s e"
  shows "\<exists>it. convertEdge e s = Some (length (heap s), s\<lparr>heap := heap s @ [it]\<rparr>)
     \<and> item_type it = nodeTransition \<and> item_id it = edge_id e \<and> item_children it = []
     \<and> item_source it \<noteq> None \<and> item_target it \<noteq> None
     \<and> item_source it = idToItem s (edge_source_id e)
     \<and> item_target it = idToItem s (edge_target_id e)"
proof -
  from assms obtain src tgt where
    "map_of (states_map s) (edge_source_id e) = Some src"
    "map_of (states_map s) (edge_target_id e) = Some tgt"
    unfolding resolves_def qmap_keys_def by (metis map_of_eq_None_iff not_Some_eq)
  then show ?thesis
    by (intro exI [of _ "CyberiadaTransitionItem src tgt (edge_id e) (trimmed (edge_action e))
          (TransitionGeometry (geometry_source_point e) (geometry_target_point e)
             (geometry_polyline e))"])
      (simp add: convertEdge_def qmap_value_def idToItem_def new_item_def item_ctor_defs)
qed

lemma convertEdge_None:
  assumes "\<not> resolves s e"
  shows "convertEdge e s = None"
proof -
  from assms have "map_of (states_map s) (edge_source_id e) = None
      \<or> map_of (states_map s) (edge_target_id e) = None"
    by (auto simp: resolves_def qmap_keys_def map_of_eq_None_iff)
  then show ?thesis
    by (auto simp: convertEdge_def qmap_value_def split: option.splits)
qed

lemma is_transition_of_frame:
  assumes "is_transition_of s h e" and "length (heap s) \<le> length (heap s')"
    and "heap s' ! h = heap s ! h" and "states_map s' = states_map s"
  shows "is_transition_of s' h e"
  using assms by (auto simp: is_transition_of_def idToItem_def)

text \<open>
  The loop over the edges appends, in order, the transitions of the edges before the first
  one with an end that is not in the index, and changes nothing else.
\<close>

lemma loadGraph_edges_prefix:
  assumes "trans_root s < length (heap s)"
  shows "\<exists>new. grown s (loadGraph_edges es s) (trans_root s) new
     \<and> states_map (loadGraph_edges es s) = states_map s
     \<and> list_all2 (is_transition_of (loadGraph_edges es s)) new (take (length new) es)
     \<and> (length new = length es
          \<or> (length new < length es \<and> \<not> resolves s (es ! length new)))"
  using assms
proof (induction es arbitrary: s)
  case Nil
  then show ?case by (auto simp: grown_refl intro!: exI [of _ "[]"])
next
  case (Cons e es)
  let ?r = "trans_root s" and ?b = "length (heap s)"
  show ?case
  proof (cases "resolves s e")
    case False
    then have "loadGraph_edges (e # es) s = s" by (simp add: convertEdge_None)
    with False show ?thesis by (auto simp: grown_refl intro!: exI [of _ "[]"])
  next
    case True
    from convertEdge_Some [OF this] obtain it where
      conv: "convertEdge e s = Some (?b, s\<lparr>heap := heap s @ [it]\<rparr>)"
      and it: "item_type it = nodeTransition" "item_id it = edge_id e"
        "item_source it \<noteq> None" "item_target it \<noteq> None"
        "item_source it = idToItem s (edge_source_id e)"
        "item_target it = idToItem s (edge_target_id e)"
      by blast
    define s2 where "s2 = addChild ?r ?b (s\<lparr>heap := heap s @ [it]\<rparr>)"
    have r: "?r < ?b" by (rule Cons.prems)
    have h2: "heap s2 = (heap s @ [it])[?r := (heap s ! ?r)\<lparr>item_children := item_children (heap s ! ?r) @ [?b]\<rparr>]"
      using r by (simp add: s2_def addChild_def nth_append)
    have m2: "states_map s2 = states_map s" by (simp add: s2_def addChild_def)
    have r2: "root s2 = root s" "sm_root s2 = sm_root s" "states_root s2 = states_root s"
      "trans_root s2 = trans_root s"
      by (simp_all add: s2_def addChild_def)
    have step: "loadGraph_edges (e # es) s = loadGraph_edges es s2"
      by (simp add: conv s2_def)
    have g1: "grown s s2 ?r [?b]"
      using r by (simp add: grown_def h2 m2 r2 nth_list_update nth_append)
    have it2: "heap s2 ! ?b = it" using r by (simp add: h2 nth_list_update nth_append)
    have l2: "length (heap s2) = Suc ?b" by (simp add: h2)
    have t2: "is_transition_of s2 ?b e"
      using it by (simp add: is_transition_of_def it2 l2 idToItem_def m2)
    have res2: "\<And>e'. resolves s2 e' = resolves s e'" by (simp add: resolves_def m2)
    have "trans_root s2 < length (heap s2)" using r by (simp add: r2 l2)
    from Cons.IH [OF this] obtain new where
      g2: "grown s2 (loadGraph_edges es s2) ?r new"
      and m3: "states_map (loadGraph_edges es s2) = states_map s2"
      and a3: "list_all2 (is_transition_of (loadGraph_edges es s2)) new (take (length new) es)"
      and n3: "length new = length es \<or> (length new < length es \<and> \<not> resolves s (es ! length new))"
      unfolding r2 res2 by blast
    have "is_transition_of (loadGraph_edges es s2) ?b e"
    proof (rule is_transition_of_frame [OF t2 _ _ m3])
      show "length (heap s2) \<le> length (heap (loadGraph_edges es s2))"
        using g2 by (simp add: grown_def)
      show "heap (loadGraph_edges es s2) ! ?b = heap s2 ! ?b"
        using g2 r l2 by (simp add: grown_def)
    qed
    with a3 have "list_all2 (is_transition_of (loadGraph_edges es s2)) (?b # new)
        (take (length (?b # new)) (e # es))"
      by simp
    moreover have "grown s (loadGraph_edges es s2) ?r (?b # new)"
      using grown_trans [OF g1 g2] by simp
    moreover have "length (?b # new) = length (e # es)
        \<or> (length (?b # new) < length (e # es) \<and> \<not> resolves s ((e # es) ! length (?b # new)))"
      using n3 by simp
    ultimately show ?thesis unfolding step using m3 m2 by (intro exI [of _ "?b # new"]) simp
  qed
qed

subsection \<open>loadGraph\<close>

lemma below_top_le: "length (below_top nodes) \<le> length (all_nodes nodes)"
  unfolding below_top_def
  by (induction nodes) (simp_all add: all_nodes_Cons all_nodes_append)

lemma loaded_start:
  fixes s sm
  defines "s1 \<equiv> renameSM (doc_name sm) ((reset s)\<lparr>sm_version := doc_version sm\<rparr>)"
  shows "length (heap s1) = 4" "states_map s1 = []" "states_root s1 = 2" "trans_root s1 = 3"
    "item_children (heap s1 ! 2) = []" "item_children (heap s1 ! 3) = []"
  by (simp_all add: s1_def renameSM_def rename_def reset_def initTrees_def cleanupTrees_def
      CyberiadaRootItem_def blank_item_def Let_def)

text \<open>
  What \<^verbatim>\<open>loadGraph\<close> leaves when it returns: under the states aggregation the items of
  the nodes below the top level, in the shape of the document with the top level left out;
  in the index the identifiers registered for those nodes, each with the item of its node;
  under the transitions aggregation the transitions of the edges before the first one that
  does not resolve.
\<close>

lemma loadGraph_result:
  assumes "loadGraph K rnd (Inr sm) s = Some s'"
  shows "states_root s' = 2 \<and> trans_root s' = 3
     \<and> length (all_nodes (doc_nodes sm)) + 4 \<le> length (heap s')
     \<and> builds 4 s' 2 (item_children (heap s' ! 2)) (concat (map node_children (doc_nodes sm)))
     \<and> (\<forall>n\<in>set (below_top (doc_nodes sm)).
           node_type n \<noteq> cybNodeComment \<longrightarrow> node_id n \<in> qmap_keys (states_map s'))
     \<and> states_map s' =
          zip (registered_ids (doc_nodes sm))
            (built s' (item_children (heap s' ! 2)) (concat (map node_children (doc_nodes sm))))
     \<and> list_all2 (is_transition_of s') (item_children (heap s' ! 3))
          (take (length (item_children (heap s' ! 3))) (doc_edges sm))
     \<and> (length (item_children (heap s' ! 3)) = length (doc_edges sm)
          \<or> (length (item_children (heap s' ! 3)) < length (doc_edges sm)
              \<and> \<not> resolves s' (doc_edges sm ! length (item_children (heap s' ! 3)))))"
proof -
  define s1 where "s1 = renameSM (doc_name sm) ((reset s)\<lparr>sm_version := doc_version sm\<rparr>)"
  note st = loaded_start [of sm s, folded s1_def]
  let ?nodes = "doc_nodes sm"
  from assms obtain s2 where
    nodes: "addChildNodes K rnd ?nodes 2 True s1 = Some s2"
    and s': "s' = loadGraph_edges (doc_edges sm) s2"
    by (auto simp: loadGraph_def s1_def [symmetric] st Let_def split: option.splits)
  have "2 < length (heap s1)" by (simp add: st)
  from addChildNodes_builds [OF nodes this] obtain new where
    g12: "grown s1 s2 2 new"
    and l2: "length (heap s2) = length (heap s1) + length (all_nodes ?nodes)"
    and b2: "builds (length (heap s1)) s2 2 new (forest_of True ?nodes)"
    and k2: "\<forall>n\<in>set (all_nodes (forest_of True ?nodes)).
           node_type n \<noteq> cybNodeComment \<longrightarrow> node_id n \<in> qmap_keys (states_map s2)"
    and i2: "states_map s2 = states_map s1 @
          zip (committed_ids (map fst (states_map s1)) (all_nodes (forest_of True ?nodes)))
            (built s2 new (forest_of True ?nodes))"
    by blast
  have forest: "forest_of True ?nodes = concat (map node_children ?nodes)"
    by (simp add: forest_of_def)
  have r2: "trans_root s2 = 3" "states_root s2 = 2" using g12 st by (simp_all add: grown_def)
  have "trans_root s2 < length (heap s2)" using l2 st r2 by simp
  from loadGraph_edges_prefix [OF this, of "doc_edges sm"] obtain newT where
    g23: "grown s2 s' 3 newT"
    and m3: "states_map s' = states_map s2"
    and t3: "list_all2 (is_transition_of s') newT (take (length newT) (doc_edges sm))"
    and n3: "length newT = length (doc_edges sm)
        \<or> (length newT < length (doc_edges sm) \<and> \<not> resolves s2 (doc_edges sm ! length newT))"
    unfolding s' r2 by blast
  have r3: "trans_root s' = 3" "states_root s' = 2" using g23 r2 by (simp_all add: grown_def)
  have "heap s2 ! 3 = heap s1 ! 3" using g12 st by (simp add: grown_def)
  then have c3: "item_children (heap s' ! 3) = newT" using g23 st by (simp add: grown_def)
  have "heap s' ! 2 = heap s2 ! 2" using g23 l2 st by (simp add: grown_def)
  then have c2: "item_children (heap s' ! 2) = new" using g12 st by (simp add: grown_def)
  have fr: "\<forall>h. 4 \<le> h \<and> h < length (heap s2) \<longrightarrow> heap s' ! h = heap s2 ! h"
    using g23 by (auto simp: grown_def)
  have b3: "builds 4 s' 2 new (forest_of True ?nodes)"
  proof (rule builds_frame [OF b2 [unfolded st] _ fr])
    show "length (heap s2) \<le> length (heap s')" using g23 by (simp add: grown_def)
    show "states_map s' = states_map s2 @ []" using m3 by simp
  qed
  have "built s' new (forest_of True ?nodes) = built s2 new (forest_of True ?nodes)"
    by (rule built_frame [OF b2 [unfolded st] fr])
  with i2 have i3: "states_map s2 =
      zip (registered_ids ?nodes) (built s' new (concat (map node_children ?nodes)))"
    by (simp add: st registered_ids_def below_top_def forest)
  have len: "length (all_nodes ?nodes) + 4 \<le> length (heap s')"
    using g23 l2 st by (simp add: grown_def)
  have res: "\<And>e. resolves s' e = resolves s2 e" by (simp add: resolves_def m3)
  from r3 len b3 k2 i3 t3 n3 show ?thesis
    unfolding c2 c3 forest res m3 below_top_def by blast
qed

text \<open>
  \<^verbatim>\<open>loadGraph\<close> returns on the documents that meet the condition on the order of their
  nodes, and on no other.
\<close>

lemma loadGraph_returns_iff:
  "(\<exists>s'. loadGraph K rnd (Inr sm) s = Some s') \<longleftrightarrow> comments_convertible (doc_nodes sm)"
proof -
  define s1 where "s1 = renameSM (doc_name sm) ((reset s)\<lparr>sm_version := doc_version sm\<rparr>)"
  note st = loaded_start [of sm s, folded s1_def]
  have stuck: "loadGraph K rnd (Inr sm) s = None" if "\<not> comments_convertible (doc_nodes sm)"
  proof -
    from that have "\<not> generate_ok False (visit True (doc_nodes sm))"
      by (simp add: comments_convertible_def)
    from addChildNodes_stuck [OF this, of s1 2 K rnd]
    have "addChildNodes K rnd (doc_nodes sm) 2 True s1 = None" by (simp add: st)
    then show ?thesis by (simp add: loadGraph_def s1_def [symmetric] st Let_def)
  qed
  have returns: "\<exists>s'. loadGraph K rnd (Inr sm) s = Some s'"
    if "comments_convertible (doc_nodes sm)"
  proof -
    from that have g: "generate_ok False (visit True (doc_nodes sm))"
      by (simp add: comments_convertible_def)
    have "\<not> fresh s1 \<longrightarrow> False" by (simp add: fresh_def st qmap_keys_def)
    from addChildNodes_returns [OF g this, of K rnd 2]
    obtain s2 where "addChildNodes K rnd (doc_nodes sm) 2 True s1 = Some s2" by blast
    then show ?thesis by (simp add: loadGraph_def s1_def [symmetric] st Let_def)
  qed
  from stuck returns show ?thesis by fastforce
qed

text \<open>
  A transition joins the items of the nodes its edge names only if both ends of the edge
  are identifiers of nodes below the top level that are registered under them.
\<close>

lemma joins_own_id_registered:
  assumes "joins s nodes t e"
  shows "own_id_registered nodes (edge_source_id e) \<and> own_id_registered nodes (edge_target_id e)"
proof -
  have l: "length (registered_ids nodes) = length (below_top nodes)"
    by (simp add: registered_ids_def length_committed_ids)
  from assms obtain a b where a: "a < length (below_top nodes)"
    "node_id (below_top nodes ! a) = edge_source_id e"
    "registered_ids nodes ! a = edge_source_id e"
    and b: "b < length (below_top nodes)"
    "node_id (below_top nodes ! b) = edge_target_id e"
    "registered_ids nodes ! b = edge_target_id e"
    unfolding joins_def by auto
  have "(registered_ids nodes ! a, below_top nodes ! a)
      \<in> set (zip (registered_ids nodes) (below_top nodes))"
    "(registered_ids nodes ! b, below_top nodes ! b)
      \<in> set (zip (registered_ids nodes) (below_top nodes))"
    using a(1) b(1) l by (auto simp: in_set_zip)
  with a b show ?thesis unfolding own_id_registered_def list_ex_iff by force
qed

subsection \<open>The example documents\<close>

lemma example_load:
  "loadGraph example_constants example_rnd (Inr example_doc)
     (CyberiadaSMModel_new example_constants) = Some example_loaded"
  by (simp add: loadGraph_def reset_def initTrees_def cleanupTrees_def renameSM_def rename_def
      CyberiadaSMModel_new_def example_loaded_def
      example_doc_def example_edge_def example_heap_def example_nodes_def
      convertNode_state convertNode_comment addToMap_fresh contains_def convertEdge_eval
      getID_def addChild_def CyberiadaRootItem_def item_ctor_defs trimmed_def isSpace_def
      example_constants_def
      split del: if_split)

lemma two_comments_load:
  "loadGraph example_constants rnd (Inr two_comments_doc) s = None"
  by (simp add: loadGraph_def reset_def initTrees_def cleanupTrees_def renameSM_def rename_def
      two_comments_doc_def
      convertNode_state convertNode_comment convertNode_comment_stuck addToMap_fresh contains_def
      getID_def addChild_def CyberiadaRootItem_def item_ctor_defs
      example_constants_def
      split del: if_split)

text \<open>
  C1. The claim: after \<^verbatim>\<open>loadGraph\<close> on a document with an edge whose end does not
  resolve, the states aggregation and the transitions aggregation have no children. In
  the example the source of \<open>e2\<close> is the comment, which the index holds under a generated
  identifier only; \<^verbatim>\<open>loadGraph\<close> returns at \<open>e2\<close> and leaves the three converted nodes
  under the states aggregation and the transition of \<open>e1\<close> under the transitions
  aggregation.
\<close>

theorem loadGraph_unresolved_edge_keeps_tree:
  "loadGraph example_constants example_rnd (Inr example_doc)
     (CyberiadaSMModel_new example_constants) = Some example_loaded
   \<and> edge_source_id (doc_edges example_doc ! 1) = ''c1''
   \<and> idToItem example_loaded ''c1'' = None
   \<and> item_children (heap example_loaded ! states_root example_loaded) = [5, 6, 7]
   \<and> item_children (heap example_loaded ! trans_root example_loaded) = [8]"
  by (simp add: example_load)
    (simp add: example_loaded_def example_heap_def example_doc_def example_edge_def
      idToItem_def qmap_value_def blank_item_def)

text \<open>
  C4. The claim: \<^verbatim>\<open>generateID\<close> returns for every state of the index. Its candidate is
  \<^verbatim>\<open>QString("id-%d").arg(num)\<close>, and \<^verbatim>\<open>%d\<close> is no place marker of \<^verbatim>\<open>arg\<close>: the
  candidate is \<^verbatim>\<open>id-%d\<close> whatever the number. Once the index holds that identifier (after
  the first comment of a document, as in the example) the loop never ends, whatever the
  random numbers.
\<close>

theorem generateID_does_not_return: "generateID rnd example_loaded = None"
  by (simp add: generateID_def generateID_loop_stuck contains_def example_loaded_def)

text \<open>
  C7. The claim: for every document, every node below the top level is built, registered
  and attached. On a document with two comments the conversion does not return: the second
  call of \<^verbatim>\<open>generateID\<close> loops (see C4), for every sequence of random numbers and every
  model the call starts from.
\<close>

theorem loadGraph_two_comments_does_not_return:
  "loadGraph example_constants rnd (Inr two_comments_doc) s = None"
  by (rule two_comments_load)

text \<open>
  Whenever \<^verbatim>\<open>loadGraph\<close> returns, the children of the states aggregation are the items
  of the children of the top-level nodes, and so on down the document: no item of a
  top-level node is among them.
\<close>

lemma loadGraph_flattens:
  assumes "loadGraph K rnd (Inr sm) s = Some s'"
  shows "builds 4 s' (states_root s') (item_children (heap s' ! states_root s'))
     (concat (map node_children (doc_nodes sm)))"
  using loadGraph_result [OF assms] by simp

text \<open>
  Why an end of an edge has to be registered under its own identifier. In the document
  with \<open>s1\<close> twice the second \<open>s1\<close> is registered under \<open>s1_\<close>, and the state \<open>s1_\<close> under
  \<open>s1__\<close>. Every end of the edge names a node below the top level, and the transition is
  built; its target is the item of the second \<open>s1\<close>, not the item of the node \<open>s1_\<close>.
\<close>

lemma commit_step: "commit ks i = (if i \<in> set ks then commit ks (i @ ''_'') else i)"
  unfolding commit_def
  by (subst addToMap_loop.simps) (simp add: contains_iff qmap_keys_def image_image)

lemma dup_load:
  "loadGraph example_constants example_rnd (Inr dup_doc)
     (CyberiadaSMModel_new example_constants) = Some dup_loaded"
  by (simp add: loadGraph_def reset_def initTrees_def cleanupTrees_def renameSM_def rename_def
      CyberiadaSMModel_new_def dup_loaded_def dup_doc_def example_edge_def
      convertNode_state addToMap_commit commit_step convertEdge_eval
      getID_def addChild_def CyberiadaRootItem_def item_ctor_defs trimmed_def
      example_constants_def
      split del: if_split)

lemma loadGraph_identifier_taken:
  "endpoints_declared dup_doc
   \<and> \<not> endpoints_resolvable dup_doc
   \<and> loadGraph example_constants example_rnd (Inr dup_doc)
       (CyberiadaSMModel_new example_constants) = Some dup_loaded
   \<and> idToItem dup_loaded ''s1_'' = Some 6
   \<and> item_children (heap dup_loaded ! trans_root dup_loaded) = [8]
   \<and> item_source (heap dup_loaded ! 8) = Some 5
   \<and> item_target (heap dup_loaded ! 8) = Some 6
   \<and> item_id (heap dup_loaded ! 6) = ''s1''
   \<and> item_id (heap dup_loaded ! 7) = ''s1_''"
proof -
  have d: "endpoints_declared dup_doc"
    by (simp add: endpoints_declared_def below_top_def dup_doc_def example_edge_def)
  have r: "registered_ids (doc_nodes dup_doc) = [''s1'', ''s1_'', ''s1__'']"
    by (simp add: registered_ids_def below_top_def dup_doc_def key_id_def commit_step)
  have e: "\<not> endpoints_resolvable dup_doc"
    unfolding endpoints_resolvable_def own_id_registered_def r
    by (simp add: below_top_def dup_doc_def example_edge_def)
  have "idToItem dup_loaded ''s1_'' = Some 6
      \<and> item_children (heap dup_loaded ! trans_root dup_loaded) = [8]
      \<and> item_source (heap dup_loaded ! 8) = Some 5
      \<and> item_target (heap dup_loaded ! 8) = Some 6
      \<and> item_id (heap dup_loaded ! 6) = ''s1''
      \<and> item_id (heap dup_loaded ! 7) = ''s1_''"
    by (simp add: dup_loaded_def idToItem_def qmap_value_def item_ctor_defs)
  with d e dup_load show ?thesis by blast
qed

text \<open>
  C6, the claim as written fails: every end of the two edges of the example names a node
  below the top level (\<open>e2\<close> starts at the comment \<open>c1\<close>), yet the transitions aggregation
  has one transition, not two. A comment is registered under a generated identifier, not
  under the identifier of its node.
\<close>

theorem loadGraph_round_trip_counterexample:
  "endpoints_declared example_doc
   \<and> loadGraph example_constants example_rnd (Inr example_doc)
       (CyberiadaSMModel_new example_constants) = Some example_loaded
   \<and> length (doc_edges example_doc) = 2
   \<and> length (item_children (heap example_loaded ! trans_root example_loaded)) = 1"
  by (simp add: example_load)
    (simp add: endpoints_declared_def below_top_def example_doc_def example_nodes_def
      example_edge_def example_loaded_def example_heap_def blank_item_def)

text \<open>
  C6, amended. For every document in which no comment node comes, in document order,
  after a comment below the top level or after a node below the top level named \<open>id-%d\<close>,
  and in which every end of every edge is the identifier of a node below the top level
  that is registered under that identifier, \<^verbatim>\<open>loadGraph\<close> returns. The hierarchy below
  the states aggregation then holds as many items as the document has nodes below its top
  level: in document order, the item of each of those nodes, with the node's category and
  identifier. The transitions aggregation has one transition per edge, in order, each
  with the edge's identifier and with the items the index holds under the edge's source
  and target identifiers as its ends; those ends are the items, in the hierarchy, of the
  nodes that have these identifiers and are registered under them.
\<close>

theorem loadGraph_round_trip:
  assumes "comments_convertible (doc_nodes sm)"
    and "endpoints_resolvable sm"
  shows "\<exists>s'. loadGraph K rnd (Inr sm) s = Some s'
     \<and> length (hierarchy_below s' (states_root s')) = length (below_top (doc_nodes sm))
     \<and> list_all2 (\<lambda>h n. h < length (heap s') \<and> node_item n (heap s' ! h))
          (hierarchy_below s' (states_root s')) (below_top (doc_nodes sm))
     \<and> length (item_children (heap s' ! trans_root s')) = length (doc_edges sm)
     \<and> list_all2 (\<lambda>t e. is_transition_of s' t e \<and> joins s' (doc_nodes sm) t e)
          (item_children (heap s' ! trans_root s')) (doc_edges sm)"
proof -
  define s1 where "s1 = renameSM (doc_name sm) ((reset s)\<lparr>sm_version := doc_version sm\<rparr>)"
  note st = loaded_start [of sm s, folded s1_def]
  let ?nodes = "doc_nodes sm" and ?forest = "concat (map node_children (doc_nodes sm))"
  have "\<not> fresh s1 \<longrightarrow> False" by (simp add: fresh_def st qmap_keys_def)
  from addChildNodes_returns [OF assms(1) [unfolded comments_convertible_def] this,
      of K rnd 2]
  obtain s2 where nodes: "addChildNodes K rnd ?nodes 2 True s1 = Some s2" by blast
  define s' where "s' = loadGraph_edges (doc_edges sm) s2"
  have load: "loadGraph K rnd (Inr sm) s = Some s'"
    using nodes by (simp add: loadGraph_def s1_def [symmetric] st s'_def Let_def)
  define H where "H = built s' (item_children (heap s' ! 2)) ?forest"
  from loadGraph_result [OF load] have
    r3: "states_root s' = 2" "trans_root s' = 3"
    and len: "length (all_nodes ?nodes) + 4 \<le> length (heap s')"
    and b3: "builds 4 s' 2 (item_children (heap s' ! 2)) ?forest"
    and i3: "states_map s' = zip (registered_ids ?nodes) H"
    and t3: "list_all2 (is_transition_of s') (item_children (heap s' ! 3))
          (take (length (item_children (heap s' ! 3))) (doc_edges sm))"
    and n3: "length (item_children (heap s' ! 3)) = length (doc_edges sm)
          \<or> (length (item_children (heap s' ! 3)) < length (doc_edges sm)
              \<and> \<not> resolves s' (doc_edges sm ! length (item_children (heap s' ! 3))))"
    unfolding H_def by blast+
  have lenH: "length H = length (below_top ?nodes)"
    unfolding H_def below_top_def by (rule built_length [OF b3])
  have items: "list_all2 (\<lambda>h n. h < length (heap s') \<and> node_item n (heap s' ! h))
      H (below_top ?nodes)"
    unfolding H_def below_top_def by (rule built_items [OF b3])
  obtain f where f: "length (heap s') = Suc f"
    using len by (cases "length (heap s')") auto
  have "forest_height ?forest \<le> length (below_top ?nodes)"
    using forest_height_le [of ?forest] unfolding below_top_def .
  also have "\<dots> \<le> length (all_nodes ?nodes)" by (rule below_top_le)
  also have "\<dots> \<le> length (heap s')" using len by simp
  finally have "forest_height ?forest \<le> Suc f" unfolding f .
  from items_below_built [OF b3 this]
  have hier: "hierarchy_below s' 2 = H"
    unfolding hierarchy_below_def f H_def by simp
  have look: "\<exists>a<length (below_top ?nodes).
      node_id (below_top ?nodes ! a) = x \<and> registered_ids ?nodes ! a = x
      \<and> idToItem s' x = Some (H ! a)"
    if "own_id_registered ?nodes x" for x
    using own_id_registered_lookup [OF that lenH]
    by (simp add: idToItem_def qmap_value_def i3)
  have ends: "own_id_registered ?nodes (edge_source_id e)"
    "own_id_registered ?nodes (edge_target_id e)" if "e \<in> set (doc_edges sm)" for e
    using assms(2) that unfolding endpoints_resolvable_def by blast+
  have key: "x \<in> qmap_keys (states_map s')" if "own_id_registered ?nodes x" for x
  proof -
    from look [OF that] obtain y where "map_of (states_map s') x = Some y"
      unfolding idToItem_def qmap_value_def by blast
    then have "(x, y) \<in> set (states_map s')" by (rule map_of_SomeD)
    then show ?thesis unfolding qmap_keys_def by force
  qed
  have "\<forall>e\<in>set (doc_edges sm). resolves s' e"
    using ends key unfolding resolves_def by blast
  with n3 have m: "length (item_children (heap s' ! 3)) = length (doc_edges sm)"
    by (auto simp: all_set_conv_all_nth)
  with t3 have ts: "list_all2 (is_transition_of s') (item_children (heap s' ! 3)) (doc_edges sm)"
    by simp
  have tj: "list_all2 (\<lambda>t e. is_transition_of s' t e \<and> joins s' ?nodes t e)
      (item_children (heap s' ! 3)) (doc_edges sm)"
  proof (rule list.rel_mono_strong [OF ts])
    fix t e
    assume e: "e \<in> set (doc_edges sm)" and t: "is_transition_of s' t e"
    from look [OF ends(1) [OF e]] obtain a where a: "a < length (below_top ?nodes)"
      "node_id (below_top ?nodes ! a) = edge_source_id e"
      "registered_ids ?nodes ! a = edge_source_id e"
      "idToItem s' (edge_source_id e) = Some (H ! a)"
      by blast
    from look [OF ends(2) [OF e]] obtain b where b: "b < length (below_top ?nodes)"
      "node_id (below_top ?nodes ! b) = edge_target_id e"
      "registered_ids ?nodes ! b = edge_target_id e"
      "idToItem s' (edge_target_id e) = Some (H ! b)"
      by blast
    from t a(4) b(4) have "item_source (heap s' ! t) = Some (H ! a)"
      "item_target (heap s' ! t) = Some (H ! b)"
      by (simp_all add: is_transition_of_def)
    moreover from a(1) b(1) have "a \<in> {..<length (below_top ?nodes)}"
      "b \<in> {..<length (below_top ?nodes)}"
      by simp_all
    ultimately have "joins s' ?nodes t e"
      unfolding joins_def r3 hier using a(2,3) b(2,3) by blast
    with t show "is_transition_of s' t e \<and> joins s' ?nodes t e" ..
  qed
  from load hier lenH items m tj show ?thesis by (intro exI [of _ s']) (simp add: r3)
qed

theorem loadGraph_round_trip_witness:
  "comments_convertible (doc_nodes light_doc)
   \<and> endpoints_resolvable light_doc
   \<and> (\<exists>s'. loadGraph example_constants example_rnd (Inr light_doc)
              (CyberiadaSMModel_new example_constants) = Some s'
           \<and> length (hierarchy_below s' (states_root s')) = 2
           \<and> list_all2 (\<lambda>h n. h < length (heap s') \<and> node_item n (heap s' ! h))
                (hierarchy_below s' (states_root s')) (below_top (doc_nodes light_doc))
           \<and> length (item_children (heap s' ! trans_root s')) = 1
           \<and> list_all2 (\<lambda>t e. is_transition_of s' t e \<and> joins s' (doc_nodes light_doc) t e)
                (item_children (heap s' ! trans_root s')) (doc_edges light_doc))"
proof -
  have h: "comments_convertible (doc_nodes light_doc)"
    by (simp add: light_doc_def comments_convertible_def)
  have e: "endpoints_resolvable light_doc"
    by (simp add: light_doc_def endpoints_resolvable_def own_id_registered_def
        registered_ids_def below_top_def key_id_def commit_fresh example_edge_def)
  have n: "length (below_top (doc_nodes light_doc)) = 2" "length (doc_edges light_doc) = 1"
    by (simp_all add: light_doc_def below_top_def)
  from loadGraph_round_trip [OF h e, of example_constants example_rnd
      "CyberiadaSMModel_new example_constants"]
  obtain s' where "loadGraph example_constants example_rnd (Inr light_doc)
        (CyberiadaSMModel_new example_constants) = Some s'
      \<and> length (hierarchy_below s' (states_root s')) = length (below_top (doc_nodes light_doc))
      \<and> list_all2 (\<lambda>h n. h < length (heap s') \<and> node_item n (heap s' ! h))
           (hierarchy_below s' (states_root s')) (below_top (doc_nodes light_doc))
      \<and> length (item_children (heap s' ! trans_root s')) = length (doc_edges light_doc)
      \<and> list_all2 (\<lambda>t e. is_transition_of s' t e \<and> joins s' (doc_nodes light_doc) t e)
           (item_children (heap s' ! trans_root s')) (doc_edges light_doc)"
    by blast
  then have "\<exists>s'. loadGraph example_constants example_rnd (Inr light_doc)
        (CyberiadaSMModel_new example_constants) = Some s'
      \<and> length (hierarchy_below s' (states_root s')) = 2
      \<and> list_all2 (\<lambda>h n. h < length (heap s') \<and> node_item n (heap s' ! h))
           (hierarchy_below s' (states_root s')) (below_top (doc_nodes light_doc))
      \<and> length (item_children (heap s' ! trans_root s')) = 1
      \<and> list_all2 (\<lambda>t e. is_transition_of s' t e \<and> joins s' (doc_nodes light_doc) t e)
           (item_children (heap s' ! trans_root s')) (doc_edges light_doc)"
    unfolding n by (rule exI)
  with h e show ?thesis by blast
qed

section \<open>The tree adapter\<close>

lemma hasIndex_True_iff:
  "hasIndex s r c parent = Inr True \<longleftrightarrow>
     c \<le> 0 \<and>
     (if isValid parent
      then \<exists>parentItem. deref s (internalPointer parent) = Inr parentItem
             \<and> 0 \<le> r \<and> r < childCount parentItem
      else r = 0)"
  by (auto simp: hasIndex_def split: sum.splits)

text \<open>
  C8. The claim: an address is valid only if its column is 0, and every address with
  a column other than 0 is reported invalid. \<^verbatim>\<open>hasIndex\<close> tests \<^verbatim>\<open>column > 0\<close>, so a
  negative column passes: row 0, column -1 under the default (absent) parent is reported
  valid, for every model; so it is under the states aggregation of the example, where
  \<^verbatim>\<open>index\<close> then hands out an address with column -1.
\<close>

theorem hasIndex_negative_column:
  "hasIndex s 0 (- 1) QModelIndex_default = Inr True
   \<and> hasIndex example_loaded 0 (- 1) (statesRootIndex example_loaded) = Inr True
   \<and> index example_loaded 0 (- 1) (statesRootIndex example_loaded) = Inr (createIndex 0 (- 1) 5)"
  by (simp add: index_def hasIndex_def isValid_def QModelIndex_default_def statesRootIndex_def
      createIndex_def deref_def childCount_def child_def example_loaded_def example_heap_def
      blank_item_def)

text \<open>
  C10. Under a parent address that is not valid, \<^verbatim>\<open>index\<close> returns the default (invalid)
  address for every row and column, also for row 0 and column 0, which \<^verbatim>\<open>hasIndex\<close>
  reports valid there; so what it returns is never the address \<^verbatim>\<open>rootIndex\<close> gives.
\<close>

theorem index_invalid_parent:
  "\<not> isValid parent \<Longrightarrow>
     index s r c parent = Inr QModelIndex_default
     \<and> index s r c parent \<noteq> Inr (rootIndex s)
     \<and> hasIndex s 0 0 parent = Inr True"
  by (simp add: index_def hasIndex_def rootIndex_def createIndex_def QModelIndex_default_def)

theorem index_invalid_parent_witness:
  "\<not> isValid QModelIndex_default
   \<and> index (CyberiadaSMModel_new example_constants) 0 0 QModelIndex_default
       = Inr QModelIndex_default
   \<and> index (CyberiadaSMModel_new example_constants) 0 0 QModelIndex_default
       \<noteq> Inr (rootIndex (CyberiadaSMModel_new example_constants))
   \<and> hasIndex (CyberiadaSMModel_new example_constants) 0 0 QModelIndex_default = Inr True"
proof -
  have h: "\<not> isValid QModelIndex_default"
    by (simp add: isValid_def QModelIndex_default_def)
  show ?thesis
    using h index_invalid_parent [OF h, of "CyberiadaSMModel_new example_constants" 0 0]
    by blast
qed

lemma isTypeIndex_at:
  assumes "internalPointer idx = Some h" and "h < length (heap s)"
  shows "isStateIndex s idx = Inr (isValid idx \<and> item_type (heap s ! h) = nodeState)"
    and "isActionIndex s idx = Inr (isValid idx \<and> item_type (heap s ! h) = nodeAction)"
    and "isInitialStateIndex s idx
           = Inr (isValid idx \<and> item_type (heap s ! h) = nodeInitialState)"
  using assms
  by (simp_all add: isStateIndex_def isActionIndex_def isInitialStateIndex_def deref_def)

text \<open>
  C3, the claim as written fails: \<^verbatim>\<open>setData\<close> with the empty text on the comment item of
  the example (item 7, row 2 of the states aggregation) returns false and leaves the model
  as it is. Comment items are not among the categories \<^verbatim>\<open>setData\<close> lets through.
\<close>

theorem setData_comment_counterexample:
  "loadGraph example_constants example_rnd (Inr example_doc)
     (CyberiadaSMModel_new example_constants) = Some example_loaded
   \<and> item_type (heap example_loaded ! 7) = nodeComment
   \<and> setData example_loaded (createIndex 2 0 7) [] EditRole = Inr (False, example_loaded)"
  by (simp add: example_load)
    (simp add: setData_def setData_allowed_def isStateIndex_def isActionIndex_def deref_def
      isValid_def createIndex_def SMIndex_def example_loaded_def example_heap_def
      item_ctor_defs)

text \<open>
  C3, amended. For every address of an allocated item \<open>h\<close> and every text, \<^verbatim>\<open>setData\<close>
  returns without a failed assertion. It returns true exactly when the address is valid,
  the role is the edit role, the column is 0, the item is the state machine root, a state
  or an action (not a comment), and the text is not empty unless the item is an action;
  then the item's title is the new text. Otherwise the model is unchanged.
\<close>

theorem setData_rename:
  assumes "internalPointer idx = Some h" and "h < length (heap s)"
  shows "\<exists>ok s'. setData s idx newStr role = Inr (ok, s')
     \<and> (ok \<longleftrightarrow>
          isValid idx \<and> role = EditRole \<and> idx_column idx = 0
          \<and> (idx = SMIndex s \<or> item_type (heap s ! h) = nodeState
               \<or> item_type (heap s ! h) = nodeAction)
          \<and> (newStr = [] \<longrightarrow> item_type (heap s ! h) = nodeAction))
     \<and> (ok \<longrightarrow> s' = rename h newStr s)
     \<and> (\<not> ok \<longrightarrow> s' = s)"
  using assms
  by (auto simp: setData_def setData_allowed_def isTypeIndex_at)

theorem setData_rename_witness:
  "internalPointer (createIndex 0 0 5) = Some 5 \<and> 5 < length (heap example_loaded)
   \<and> setData example_loaded (createIndex 0 0 5) [] EditRole = Inr (False, example_loaded)
   \<and> setData example_loaded (createIndex 0 0 5) ''Idle'' EditRole
       = Inr (True, rename 5 ''Idle'' example_loaded)"
proof -
  have p: "internalPointer (createIndex 0 0 5) = Some 5"
    by (simp add: createIndex_def)
  have a: "5 < length (heap example_loaded)"
    by (simp add: example_loaded_def example_heap_def)
  have t: "item_type (heap example_loaded ! 5) = nodeState"
    by (simp add: example_loaded_def example_heap_def item_ctor_defs)
  have v: "isValid (createIndex 0 0 5)" "idx_column (createIndex 0 0 5) = 0"
    by (simp_all add: isValid_def createIndex_def)
  from setData_rename [OF p a, of "[]" EditRole] t v
  have 1: "setData example_loaded (createIndex 0 0 5) [] EditRole = Inr (False, example_loaded)"
    by auto
  from setData_rename [OF p a, of "''Idle''" EditRole] t v
  have 2: "setData example_loaded (createIndex 0 0 5) ''Idle'' EditRole
      = Inr (True, rename 5 ''Idle'' example_loaded)"
    by auto
  from p a 1 2 show ?thesis by blast
qed

section \<open>Drag and drop\<close>

text \<open>
  C2. The claim: \<^verbatim>\<open>move\<close> of an item to a valid owner other than its own removes the item
  from the child sequence of the old owner and appends it as the last child of the new
  one. In the source the body of \<^verbatim>\<open>move\<close> is commented out, while \<^verbatim>\<open>flags\<close> and
  \<^verbatim>\<open>supportedDropActions\<close> offer the move and the view enables drag and drop. In the
  example, as \<^verbatim>\<open>loadGraph\<close> leaves it, \<open>s1\<close> (item 5) is owned by the states aggregation
  (item 2) and \<open>s2\<close> (item 6) is a state, a different valid owner; after \<^verbatim>\<open>move\<close> of \<open>s1\<close>
  to \<open>s2\<close> the item is still the first child of the states aggregation, its owner is still
  the states aggregation, and \<open>s2\<close> has no child.
\<close>

theorem move_does_not_reparent:
  "loadGraph example_constants example_rnd (Inr example_doc)
     (CyberiadaSMModel_new example_constants) = Some example_loaded
   \<and> item_parent (heap example_loaded ! 5) = Some 2
   \<and> item_type (heap example_loaded ! 6) = nodeState
   \<and> item_children (heap (move 5 (Some 6) example_loaded) ! 2) = [5, 6, 7]
   \<and> item_parent (heap (move 5 (Some 6) example_loaded) ! 5) = Some 2
   \<and> item_children (heap (move 5 (Some 6) example_loaded) ! 6) = []"
  by (simp add: example_load)
    (simp add: move_def example_loaded_def example_heap_def item_ctor_defs)

lemma mimeData_loop_serialize:
  "\<forall>idx\<in>set indexes. item_address s idx \<Longrightarrow>
   mimeData_loop s indexes stream = Inr (stream @ snd (serialize_spec s indexes))"
proof (induction indexes arbitrary: stream)
  case Nil
  then show ?case by (simp add: serialize_spec_def)
next
  case (Cons idx rest)
  then have IH: "\<And>st. mimeData_loop s rest st = Inr (st @ snd (serialize_spec s rest))"
    and addr: "item_address s idx" by simp_all
  show ?case
  proof (cases "idx_column idx = 0")
    case False
    then show ?thesis by (simp add: IH serialize_spec_def split: option.splits)
  next
    case True
    with addr obtain h where h: "internalPointer idx = Some h" "h < length (heap s)" "isValid idx"
      by (auto simp: item_address_def QModelIndex_default_def isValid_def split: option.splits)
    show ?thesis
      using True h
      by (simp add: IH serialize_spec_def isTypeIndex_at [OF h(1,2)] indexToItem_def deref_def)
  qed
qed

text \<open>
  C9. For every list of item addresses, \<^verbatim>\<open>mimeData\<close> returns, under the media type of
  the model (the one \<^verbatim>\<open>mimeTypes\<close> lists), the identifiers of the addresses with column 0
  whose item is a state or an initial state, in the order of the list.
\<close>

theorem mimeData_serialize:
  assumes "\<forall>idx\<in>set indexes. item_address s idx"
  shows "mimeData s indexes = Inr (serialize_spec s indexes)
     \<and> mimeTypes s = [fst (serialize_spec s indexes)]"
  using mimeData_loop_serialize [OF assms, of "[]"]
  by (simp add: mimeData_def mimeTypes_def serialize_spec_def)

theorem mimeData_serialize_witness:
  "item_address example_loaded (createIndex 2 0 7)
   \<and> item_address example_loaded (createIndex 1 0 6)
   \<and> item_address example_loaded (createIndex 0 1 5)
   \<and> item_address example_loaded (createIndex 0 0 5)
   \<and> mimeData example_loaded
        [createIndex 2 0 7, createIndex 1 0 6, createIndex 0 1 5, createIndex 0 0 5]
       = Inr (''application/x-cyberiada-state'', [''s2'', ''s1''])"
proof -
  have a: "item_address example_loaded (createIndex 2 0 7)"
    "item_address example_loaded (createIndex 1 0 6)"
    "item_address example_loaded (createIndex 0 1 5)"
    "item_address example_loaded (createIndex 0 0 5)"
    by (simp_all add: item_address_def createIndex_def example_loaded_def example_heap_def)
  then have h: "\<forall>idx\<in>set [createIndex 2 0 7, createIndex 1 0 6, createIndex 0 1 5,
      createIndex 0 0 5]. item_address example_loaded idx"
    by simp
  have "serialize_spec example_loaded
      [createIndex 2 0 7, createIndex 1 0 6, createIndex 0 1 5, createIndex 0 0 5]
      = (''application/x-cyberiada-state'', [''s2'', ''s1''])"
    by (simp add: serialize_spec_def createIndex_def example_loaded_def example_heap_def
        item_ctor_defs)
  with a mimeData_serialize [OF h] show ?thesis by simp
qed

end
